theory Spec2Isabelle
  imports Complex_Main
begin

section \<open>JavaScript values used by the server\<close>

text \<open>
  The handlers of \<^verbatim>\<open>server.js\<close> coerce every numeric request field with
  \<^verbatim>\<open>Number(x || d)\<close>. The result is a JavaScript number: either a finite value or
  \<^verbatim>\<open>NaN\<close> (for instance \<^verbatim>\<open>Number("abc")\<close>). Finite values are modelled as rationals,
  \<^verbatim>\<open>NaN\<close> as a constructor of its own; the infinities are left out (in every
  comparison below they behave like a sufficiently large finite value). Counters and
  timestamps (\<^verbatim>\<open>copier.nextId\<close>, \<^verbatim>\<open>Date.now()\<close>, \<^verbatim>\<open>expiresAt\<close>) are integers,
  taken as unbounded.
\<close>

datatype jsnum = NaN | Num rat

text \<open>\<^verbatim>\<open>!x\<close> on a number: true for \<^verbatim>\<open>0\<close> and \<^verbatim>\<open>NaN\<close>.\<close>

fun falsy :: "jsnum \<Rightarrow> bool" where
  "falsy NaN = True"
| "falsy (Num r) = (r = 0)"

text \<open>\<^verbatim>\<open>a <= b\<close> and \<^verbatim>\<open>a >= b\<close>: every comparison with \<^verbatim>\<open>NaN\<close> is false.\<close>

fun js_le :: "jsnum \<Rightarrow> jsnum \<Rightarrow> bool" where
  "js_le (Num a) (Num b) = (a \<le> b)"
| "js_le _ _ = False"

fun js_ge :: "jsnum \<Rightarrow> jsnum \<Rightarrow> bool" where
  "js_ge (Num a) (Num b) = (b \<le> a)"
| "js_ge _ _ = False"

text \<open>\<^verbatim>\<open>Math.max\<close> and \<^verbatim>\<open>Math.min\<close>: \<^verbatim>\<open>NaN\<close> as soon as one argument is \<^verbatim>\<open>NaN\<close>.\<close>

fun Math_max :: "jsnum \<Rightarrow> jsnum \<Rightarrow> jsnum" where
  "Math_max (Num a) (Num b) = Num (max a b)"
| "Math_max _ _ = NaN"

fun Math_min :: "jsnum \<Rightarrow> jsnum \<Rightarrow> jsnum" where
  "Math_min (Num a) (Num b) = Num (min a b)"
| "Math_min _ _ = NaN"

text \<open>
  \<^verbatim>\<open>String.prototype.trim\<close>. Strings are lists of 8-bit code units; the white space
  and line terminators of ECMAScript that fit in 8 bits are TAB, LF, VT, FF, CR, SP and
  NBSP.
\<close>

definition is_ws :: "char \<Rightarrow> bool" where
  "is_ws c = (c = CHR 0x09 \<or> c = CHR 0x0A \<or> c = CHR 0x0B \<or> c = CHR 0x0C \<or> c = CHR 0x0D
              \<or> c = CHR 0x20 \<or> c = CHR 0xA0)"

definition trim :: "string \<Rightarrow> string" where
  "trim s = rev (dropWhile is_ws (rev (dropWhile is_ws s)))"

text \<open>\<^verbatim>\<open>a || b\<close> on a header that may be absent (\<^verbatim>\<open>req.get\<close> returns \<^verbatim>\<open>undefined\<close>).\<close>

definition or_empty :: "string option \<Rightarrow> string" where
  "or_empty h = (case h of None \<Rightarrow> '''' | Some v \<Rightarrow> v)"

text \<open>\<^verbatim>\<open>xs.slice(-n)\<close>: the last \<open>n\<close> elements, all of them when there are fewer.\<close>

definition slice_last :: "nat \<Rightarrow> 'a list \<Rightarrow> 'a list" where
  "slice_last n xs = drop (length xs - n) xs"

text \<open>
  \<^verbatim>\<open>xs.find(P)\<close> returns a reference to the first element satisfying \<open>P\<close>, and the
  handlers assign to fields of that reference. The list holds distinct objects (it is
  parsed from JSON or grown with object literals), so the assignment changes exactly the
  first element satisfying \<open>P\<close>.
\<close>

fun update_first :: "('a \<Rightarrow> bool) \<Rightarrow> ('a \<Rightarrow> 'a) \<Rightarrow> 'a list \<Rightarrow> 'a list" where
  "update_first P f [] = []"
| "update_first P f (x # xs) = (if P x then f x # xs else x # update_first P f xs)"

section \<open>Data model\<close>

text \<open>HTTP failures: 400, 401, 403 and 404, each with the \<^verbatim>\<open>error\<close> text of the reply.\<close>

datatype error =
    InvalidInput string
  | Unauthorized string
  | Forbidden string
  | NotFound string

record client =
  clientId :: string
  fullName :: string
  groupId :: string
  apiKey :: string
  enabled :: bool
  createdAt :: int
  expiresAt :: int
  boundSlaveId :: string

text \<open>
  An event of the copier log. The fields \<^verbatim>\<open>id\<close>, \<^verbatim>\<open>group\<close> and \<^verbatim>\<open>type\<close> carry the
  suffix \<open>_e\<close>, the other fields keep their names.
\<close>

record event =
  id_e :: int
  group_e :: string
  type_e :: string
  ts :: int
  master_ticket :: jsnum
  open_time :: jsnum
  symbol :: string
  cmd :: jsnum
  lots :: jsnum
  price :: jsnum
  sl :: jsnum
  tp :: jsnum
  magic :: jsnum

record copier_doc =
  nextId :: int
  events :: "event list"

record slave =
  lastAckId :: jsnum
  lastSeenAt :: int

text \<open>
  The three in-memory collections \<^verbatim>\<open>clients\<close>, \<^verbatim>\<open>copier\<close> and \<^verbatim>\<open>slaves\<close>. Writing
  them to disk (\<^verbatim>\<open>saveClients\<close>, \<^verbatim>\<open>saveSlaves\<close>, \<^verbatim>\<open>writeJsonSafe\<close>) is not modelled;
  the state below is the state the handlers read and assign. A handler runs to its end
  without interruption; it takes the state and the value \<open>now\<close> of \<^verbatim>\<open>nowMs()\<close> (the
  same for every reading within one request) and returns its reply with the new state.
\<close>

record state =
  clients :: "client list"
  copier :: copier_doc
  slaves :: "string \<rightharpoonup> slave"

text \<open>
  The constants \<^verbatim>\<open>MASTER_KEY\<close> and \<^verbatim>\<open>ADMIN_KEY\<close> of \<^verbatim>\<open>server.js\<close>. The file assigns
  them once, \<^verbatim>\<open>process.env.MASTER_KEY || ""\<close> and \<^verbatim>\<open>process.env.ADMIN_KEY || ""\<close>
  (\<open>load_config\<close>); a variable of the environment is a string or absent.
\<close>

record config =
  MASTER_KEY :: string
  ADMIN_KEY :: string

definition load_config :: "string option \<Rightarrow> string option \<Rightarrow> config" where
  "load_config env_MASTER_KEY env_ADMIN_KEY =
     \<lparr>MASTER_KEY = or_empty env_MASTER_KEY, ADMIN_KEY = or_empty env_ADMIN_KEY\<rparr>"

text \<open>\<^verbatim>\<open>let copier = readJsonSafe(COPIER_FILE, { nextId: 1, events: [] })\<close> and its siblings,
  when no file exists.\<close>

definition init_state :: state where
  "init_state = \<lparr>clients = [], copier = \<lparr>nextId = 1, events = []\<rparr>, slaves = Map.empty\<rparr>"

section \<open>Helpers and authentication\<close>

definition addDurationMs :: "string \<Rightarrow> int" where
  "addDurationMs code =
     (let day = 24 * 60 * 60 * 1000 in
      if code = ''M1'' then 31 * day
      else if code = ''M3'' then 93 * day
      else if code = ''M6'' then 186 * day
      else if code = ''Y1'' then 366 * day
      else 31 * day)"

text \<open>\<^verbatim>\<open>adminOk\<close> of \<^verbatim>\<open>server.js\<close>: an unset key lets every request through.\<close>

definition adminOk :: "config \<Rightarrow> string option \<Rightarrow> bool" where
  "adminOk cfg hdr =
     (if ADMIN_KEY cfg = '''' then True else hdr = Some (ADMIN_KEY cfg))"

text \<open>
  The second variant (\<^verbatim>\<open>src/unnamed/part_000\<close>) assigns its constant \<^verbatim>\<open>ADMIN_KEY\<close> as
  \<^verbatim>\<open>(process.env.ADMIN_KEY || "").trim()\<close>. Its \<^verbatim>\<open>adminOk\<close> rejects every request when
  that constant is empty, and compares an absent header as the empty string.
\<close>

definition ADMIN_KEY_part000 :: "string option \<Rightarrow> string" where
  "ADMIN_KEY_part000 env_ADMIN_KEY = trim (or_empty env_ADMIN_KEY)"

definition adminOk_part000 :: "string option \<Rightarrow> string option \<Rightarrow> bool" where
  "adminOk_part000 env_ADMIN_KEY hdr =
     (if ADMIN_KEY_part000 env_ADMIN_KEY = '''' then False
      else or_empty hdr = ADMIN_KEY_part000 env_ADMIN_KEY)"

definition masterOk :: "config \<Rightarrow> string option \<Rightarrow> bool" where
  "masterOk cfg hdr =
     (if MASTER_KEY cfg = '''' then False else hdr = Some (MASTER_KEY cfg))"

definition findClientByApiKey :: "client list \<Rightarrow> string \<Rightarrow> client option" where
  "findClientByApiKey cs k = find (\<lambda>c. apiKey c = k) cs"

definition findClientById :: "client list \<Rightarrow> string \<Rightarrow> client option" where
  "findClientById cs i = find (\<lambda>c. clientId c = i) cs"

fun clientActive :: "client option \<Rightarrow> int \<Rightarrow> bool" where
  "clientActive None now = False"
| "clientActive (Some c) now =
     (if \<not> enabled c then False
      else if expiresAt c \<le> now then False
      else True)"

definition requireClient :: "client list \<Rightarrow> string option \<Rightarrow> string \<Rightarrow> int \<Rightarrow> error + client" where
  "requireClient cs hdr groupIdFromReq now =
     (let k = trim (or_empty hdr) in
      if k = '''' then Inl (Unauthorized ''missing x-api-key'')
      else case findClientByApiKey cs k of
        None \<Rightarrow> Inl (Unauthorized ''invalid api key'')
      | Some c \<Rightarrow>
          if \<not> clientActive (Some c) now then Inl (Forbidden ''expired/disabled'')
          else if groupIdFromReq \<noteq> '''' \<and> groupId c \<noteq> groupIdFromReq
            then Inl (Forbidden ''group mismatch'')
          else Inr c)"

section \<open>Copier: the event log\<close>

text \<open>\<^verbatim>\<open>saveCopier\<close>: keep the last 50000 events (the write to disk is not modelled).\<close>

definition saveCopier :: "state \<Rightarrow> state" where
  "saveCopier s =
     (if length (events (copier s)) > 50000
      then s\<lparr>copier := (copier s)\<lparr>events := slice_last 50000 (events (copier s))\<rparr>\<rparr>
      else s)"

definition slaveKey :: "string \<Rightarrow> string \<Rightarrow> string" where
  "slaveKey g slaveId = g @ ''|'' @ slaveId"

text \<open>
  The body of a push after the coercions of the handler: \<open>b_group\<close> is
  \<^verbatim>\<open>String(b.group || "")\<close>, \<open>b_master_ticket\<close> is \<^verbatim>\<open>Number(b.master_ticket || 0)\<close>,
  \<open>b_lots\<close> is \<^verbatim>\<open>Number(b.lots || b.lot || 0)\<close>, and so on.
\<close>

record push_body =
  b_group :: string
  b_type :: string
  b_master_ticket :: jsnum
  b_open_time :: jsnum
  b_symbol :: string
  b_cmd :: jsnum
  b_lots :: jsnum
  b_price :: jsnum
  b_sl :: jsnum
  b_tp :: jsnum
  b_magic :: jsnum

text \<open>
  The object literal \<^verbatim>\<open>ev\<close> of \<^verbatim>\<open>POST /copier/push\<close>, for the identifier \<open>n\<close>
  that \<^verbatim>\<open>copier.nextId++\<close> yields.
\<close>

definition new_event :: "int \<Rightarrow> int \<Rightarrow> push_body \<Rightarrow> event" where
  "new_event n now b =
     \<lparr>id_e = n, group_e = b_group b, type_e = b_type b, ts = now,
      master_ticket = b_master_ticket b, open_time = b_open_time b,
      symbol = b_symbol b, cmd = b_cmd b, lots = b_lots b, price = b_price b,
      sl = b_sl b, tp = b_tp b, magic = b_magic b\<rparr>"

text \<open>
  \<^verbatim>\<open>POST /copier/push\<close>. The object literal evaluates \<^verbatim>\<open>copier.nextId++\<close> before the
  check of \<^verbatim>\<open>master_ticket\<close> and \<^verbatim>\<open>symbol\<close>. The handler is the same in both variants
  of the server.
\<close>

definition push :: "config \<Rightarrow> string option \<Rightarrow> int \<Rightarrow> push_body \<Rightarrow> state \<Rightarrow> (error + int) \<times> state" where
  "push cfg hdr now b s =
     (if \<not> masterOk cfg hdr then (Inl (Unauthorized ''unauthorized master''), s)
      else if b_group b = '''' \<or> (b_type b \<noteq> ''OPEN'' \<and> b_type b \<noteq> ''CLOSE'')
        then (Inl (InvalidInput ''bad group/type''), s)
      else
        let ev = new_event (nextId (copier s)) now b;
            s1 = s\<lparr>copier := (copier s)\<lparr>nextId := nextId (copier s) + 1\<rparr>\<rparr>
        in if falsy (master_ticket ev) \<or> symbol ev = ''''
           then (Inl (InvalidInput ''missing master_ticket/symbol''), s1)
           else
             let s2 = s1\<lparr>copier := (copier s1)\<lparr>events := events (copier s1) @ [ev]\<rparr>\<rparr>
             in (Inr (id_e ev), saveCopier s2))"

section \<open>Copier: slaves\<close>

text \<open>\<^verbatim>\<open>x || 0\<close> on a number.\<close>

definition or_zero :: "jsnum \<Rightarrow> jsnum" where
  "or_zero x = (if falsy x then Num 0 else x)"

text \<open>
  The lines shared by register, poll and ack: create the cursor record when the key
  has none (\<open>slave_or_new\<close>), then assign \<^verbatim>\<open>lastSeenAt\<close>.
\<close>

definition slave_or_new :: "(string \<rightharpoonup> slave) \<Rightarrow> string \<Rightarrow> slave" where
  "slave_or_new m k =
     (case m k of None \<Rightarrow> \<lparr>lastAckId = Num 0, lastSeenAt = 0\<rparr> | Some r \<Rightarrow> r)"

definition touch :: "string \<Rightarrow> int \<Rightarrow> state \<Rightarrow> state" where
  "touch k now s =
     s\<lparr>slaves := (slaves s)(k \<mapsto> (slave_or_new (slaves s) k)\<lparr>lastSeenAt := now\<rparr>)\<rparr>"

text \<open>The assignment \<^verbatim>\<open>c.boundSlaveId = slaveId\<close> on the client found by its API key.\<close>

definition bind :: "string \<Rightarrow> string \<Rightarrow> state \<Rightarrow> state" where
  "bind k slaveId s =
     s\<lparr>clients := update_first (\<lambda>c. apiKey c = k) (\<lambda>c. c\<lparr>boundSlaveId := slaveId\<rparr>) (clients s)\<rparr>"

text \<open>
  \<^verbatim>\<open>POST /copier/registerSlave\<close>; the reply carries \<^verbatim>\<open>c.boundSlaveId\<close>. Here and in the
  next two handlers \<open>hdr\<close> is the \<^verbatim>\<open>x-api-key\<close> header, and \<open>g\<close> and \<open>slaveId\<close> are
  \<^verbatim>\<open>String(b.group || "")\<close> and \<^verbatim>\<open>String(b.slaveId || "")\<close> (of the query for a poll).
\<close>

definition registerSlave :: "string option \<Rightarrow> int \<Rightarrow> string \<Rightarrow> string \<Rightarrow> state \<Rightarrow> (error + string) \<times> state" where
  "registerSlave hdr now g slaveId s =
     (if g = '''' \<or> slaveId = '''' then (Inl (InvalidInput ''missing group/slaveId''), s)
      else case requireClient (clients s) hdr g now of
        Inl e \<Rightarrow> (Inl e, s)
      | Inr c \<Rightarrow>
          if boundSlaveId c = ''''
          then (Inr slaveId, touch (slaveKey g slaveId) now (bind (trim (or_empty hdr)) slaveId s))
          else if boundSlaveId c \<noteq> slaveId
          then (Inl (Forbidden ''this api key is already bound to another slaveId''), s)
          else (Inr (boundSlaveId c), touch (slaveKey g slaveId) now s))"

text \<open>
  The scan of \<^verbatim>\<open>GET /copier/events\<close>: the \<^verbatim>\<open>for\<close> loop over \<^verbatim>\<open>copier.events\<close> with its
  two \<^verbatim>\<open>continue\<close> and its \<^verbatim>\<open>break\<close>; \<open>out\<close> is the array built so far.
\<close>

fun scan :: "event list \<Rightarrow> string \<Rightarrow> jsnum \<Rightarrow> jsnum \<Rightarrow> event list \<Rightarrow> event list" where
  "scan [] g since limit out = out"
| "scan (ev # evs) g since limit out =
     (if group_e ev \<noteq> g then scan evs g since limit out
      else if js_le (Num (of_int (id_e ev))) since then scan evs g since limit out
      else let out' = out @ [ev]
           in if js_ge (Num (of_nat (length out'))) limit then out'
              else scan evs g since limit out')"

text \<open>
  \<^verbatim>\<open>GET /copier/events\<close>. \<open>since\<close> is \<^verbatim>\<open>Number(req.query.since || 0)\<close> and \<open>limit_q\<close> is
  \<^verbatim>\<open>Number(req.query.limit || 200)\<close>; a query such as \<^verbatim>\<open>limit=abc\<close> makes it \<^verbatim>\<open>NaN\<close>.
  \<open>effective_limit\<close> is the constant \<^verbatim>\<open>limit\<close> of the handler.
\<close>

definition effective_limit :: "jsnum \<Rightarrow> jsnum" where
  "effective_limit limit_q = Math_min (Num 500) (Math_max (Num 1) limit_q)"

definition pollEvents :: "string option \<Rightarrow> int \<Rightarrow> string \<Rightarrow> string \<Rightarrow> jsnum \<Rightarrow> jsnum \<Rightarrow> state \<Rightarrow> (error + event list) \<times> state" where
  "pollEvents hdr now g slaveId since limit_q s =
     (let limit = effective_limit limit_q in
      if g = '''' \<or> slaveId = '''' then (Inl (InvalidInput ''missing group/slaveId''), s)
      else case requireClient (clients s) hdr g now of
        Inl e \<Rightarrow> (Inl e, s)
      | Inr c \<Rightarrow>
          if boundSlaveId c = ''''
          then (let s' = touch (slaveKey g slaveId) now (bind (trim (or_empty hdr)) slaveId s)
                in (Inr (scan (events (copier s')) g since limit []), s'))
          else if boundSlaveId c \<noteq> slaveId
          then (Inl (Forbidden ''boundSlaveId mismatch (1 account per client)''), s)
          else (let s' = touch (slaveKey g slaveId) now s
                in (Inr (scan (events (copier s')) g since limit []), s')))"

text \<open>
  \<^verbatim>\<open>POST /copier/ack\<close>, the same in both variants. \<open>event_id\<close> is
  \<^verbatim>\<open>Number(b.event_id || 0)\<close>.
\<close>

definition ack :: "string option \<Rightarrow> int \<Rightarrow> string \<Rightarrow> string \<Rightarrow> jsnum \<Rightarrow> string \<Rightarrow> state \<Rightarrow> (error + unit) \<times> state" where
  "ack hdr now g slaveId event_id status s =
     (if g = '''' \<or> slaveId = '''' \<or> falsy event_id \<or> status = ''''
      then (Inl (InvalidInput ''missing fields''), s)
      else case requireClient (clients s) hdr g now of
        Inl e \<Rightarrow> (Inl e, s)
      | Inr c \<Rightarrow>
          if boundSlaveId c \<noteq> '''' \<and> boundSlaveId c \<noteq> slaveId
          then (Inl (Forbidden ''boundSlaveId mismatch''), s)
          else
            let k = slaveKey g slaveId;
                r = slave_or_new (slaves s) k;
                r' = r\<lparr>lastAckId := Math_max (or_zero (lastAckId r)) event_id\<rparr>;
                r'' = r'\<lparr>lastSeenAt := now\<rparr>
            in (Inr (), s\<lparr>slaves := (slaves s)(k \<mapsto> r'')\<rparr>))"

section \<open>Admin endpoints\<close>

text \<open>
  The handlers of \<^verbatim>\<open>server.js\<close>. String fields of the body are taken after
  \<^verbatim>\<open>String(b.x || "")\<close>; \<open>or_default\<close> is \<^verbatim>\<open>b.duration || "M1"\<close>. The identifier and
  the key that \<^verbatim>\<open>crypto.randomBytes\<close> produces for a new client are arguments
  (\<open>newId\<close>, \<open>newKey\<close>).
\<close>

definition or_default :: "string \<Rightarrow> string \<Rightarrow> string" where
  "or_default v d = (if v = '''' then d else v)"

definition adminList :: "config \<Rightarrow> string option \<Rightarrow> state \<Rightarrow> (error + client list) \<times> state" where
  "adminList cfg hdr s =
     (if \<not> adminOk cfg hdr then (Inl (Unauthorized ''unauthorized admin''), s)
      else (Inr (clients s), s))"

definition adminAdd :: "config \<Rightarrow> string option \<Rightarrow> int \<Rightarrow> string \<Rightarrow> string \<Rightarrow> string \<Rightarrow> string \<Rightarrow> string \<Rightarrow> state \<Rightarrow> (error + client) \<times> state" where
  "adminAdd cfg hdr now b_fullName b_groupId b_duration newId newKey s =
     (if \<not> adminOk cfg hdr then (Inl (Unauthorized ''unauthorized admin''), s)
      else
        let fullName' = trim b_fullName;
            groupId' = trim b_groupId;
            duration = trim (or_default b_duration ''M1'')
        in if fullName' = '''' \<or> groupId' = ''''
           then (Inl (InvalidInput ''missing fullName/groupId''), s)
           else
             let c = \<lparr>clientId = newId, fullName = fullName', groupId = groupId',
                      apiKey = newKey, enabled = True, createdAt = now,
                      expiresAt = now + addDurationMs duration, boundSlaveId = ''''\<rparr>
             in (Inr c, s\<lparr>clients := clients s @ [c]\<rparr>))"

definition adminDisable :: "config \<Rightarrow> string option \<Rightarrow> string \<Rightarrow> bool \<Rightarrow> state \<Rightarrow> (error + unit) \<times> state" where
  "adminDisable cfg hdr b_clientId b_enabled s =
     (if \<not> adminOk cfg hdr then (Inl (Unauthorized ''unauthorized admin''), s)
      else case findClientById (clients s) b_clientId of
        None \<Rightarrow> (Inl (NotFound ''not found''), s)
      | Some c \<Rightarrow>
          (Inr (), s\<lparr>clients := update_first (\<lambda>x. clientId x = b_clientId)
                                   (\<lambda>x. x\<lparr>enabled := b_enabled\<rparr>) (clients s)\<rparr>))"

text \<open>\<^verbatim>\<open>POST /admin/clients/extend\<close>; the reply carries the new \<^verbatim>\<open>expiresAt\<close>.\<close>

definition adminExtend :: "config \<Rightarrow> string option \<Rightarrow> int \<Rightarrow> string \<Rightarrow> string \<Rightarrow> state \<Rightarrow> (error + int) \<times> state" where
  "adminExtend cfg hdr now b_clientId b_duration s =
     (if \<not> adminOk cfg hdr then (Inl (Unauthorized ''unauthorized admin''), s)
      else
        let duration = or_default b_duration ''M1'' in
        case findClientById (clients s) b_clientId of
          None \<Rightarrow> (Inl (NotFound ''not found''), s)
        | Some c \<Rightarrow>
            let base = max now (expiresAt c);
                e = base + addDurationMs duration
            in (Inr e, s\<lparr>clients := update_first (\<lambda>x. clientId x = b_clientId)
                                       (\<lambda>x. x\<lparr>expiresAt := e\<rparr>) (clients s)\<rparr>))"

definition adminResetBind :: "config \<Rightarrow> string option \<Rightarrow> string \<Rightarrow> state \<Rightarrow> (error + unit) \<times> state" where
  "adminResetBind cfg hdr b_clientId s =
     (if \<not> adminOk cfg hdr then (Inl (Unauthorized ''unauthorized admin''), s)
      else case findClientById (clients s) b_clientId of
        None \<Rightarrow> (Inl (NotFound ''not found''), s)
      | Some c \<Rightarrow>
          (Inr (), s\<lparr>clients := update_first (\<lambda>x. clientId x = b_clientId)
                                   (\<lambda>x. x\<lparr>boundSlaveId := ''''\<rparr>) (clients s)\<rparr>))"

definition adminDelete :: "config \<Rightarrow> string option \<Rightarrow> string \<Rightarrow> state \<Rightarrow> (error + unit) \<times> state" where
  "adminDelete cfg hdr b_clientId s =
     (if \<not> adminOk cfg hdr then (Inl (Unauthorized ''unauthorized admin''), s)
      else (Inr (), s\<lparr>clients := filter (\<lambda>x. clientId x \<noteq> b_clientId) (clients s)\<rparr>))"

section \<open>Requests and the step function\<close>

text \<open>
  One constructor for each endpoint that reads or assigns \<^verbatim>\<open>clients\<close>, \<^verbatim>\<open>copier\<close> or
  \<^verbatim>\<open>slaves\<close>; the first argument is the header the endpoint checks. The endpoints of
  the dashboard (\<^verbatim>\<open>/report\<close>, \<^verbatim>\<open>/command\<close>, \<^verbatim>\<open>/command_ack\<close>, \<^verbatim>\<open>/api/accounts\<close>,
  \<^verbatim>\<open>/api/panic\<close>, \<^verbatim>\<open>/health\<close>) and \<^verbatim>\<open>/copier/health\<close> assign none of the three.
  \<open>step\<close> is the state after a request handled at clock value \<open>now\<close>.
\<close>

datatype request =
    Push "string option" push_body
  | RegisterSlave "string option" string string
  | PollEvents "string option" string string jsnum jsnum
  | Ack "string option" string string jsnum string
  | AdminList "string option"
  | AdminAdd "string option" string string string string string
  | AdminDisable "string option" string bool
  | AdminExtend "string option" string string
  | AdminResetBind "string option" string
  | AdminDelete "string option" string

fun step :: "config \<Rightarrow> int \<Rightarrow> request \<Rightarrow> state \<Rightarrow> state" where
  "step cfg now (Push h b) s = snd (push cfg h now b s)"
| "step cfg now (RegisterSlave h g i) s = snd (registerSlave h now g i s)"
| "step cfg now (PollEvents h g i since limit_q) s = snd (pollEvents h now g i since limit_q s)"
| "step cfg now (Ack h g i e st) s = snd (ack h now g i e st s)"
| "step cfg now (AdminList h) s = snd (adminList cfg h s)"
| "step cfg now (AdminAdd h fn g d newId newKey) s = snd (adminAdd cfg h now fn g d newId newKey s)"
| "step cfg now (AdminDisable h i en) s = snd (adminDisable cfg h i en s)"
| "step cfg now (AdminExtend h i d) s = snd (adminExtend cfg h now i d s)"
| "step cfg now (AdminResetBind h i) s = snd (adminResetBind cfg h i s)"
| "step cfg now (AdminDelete h i) s = snd (adminDelete cfg h i s)"

section \<open>Runs, and what the properties speak about\<close>

text \<open>A run handles a list of requests in order, each at its own clock value.\<close>

fun run :: "config \<Rightarrow> (int \<times> request) list \<Rightarrow> state \<Rightarrow> state" where
  "run cfg [] s = s"
| "run cfg ((now, r) # rs) s = run cfg rs (step cfg now r s)"

text \<open>The identifiers that the successful pushes of a run return, in the order of the run.\<close>

fun assigned_ids :: "config \<Rightarrow> (int \<times> request) list \<Rightarrow> state \<Rightarrow> int list" where
  "assigned_ids cfg [] s = []"
| "assigned_ids cfg ((now, Push h b) # rs) s =
     (case fst (push cfg h now b s) of Inl e \<Rightarrow> [] | Inr n \<Rightarrow> [n])
       @ assigned_ids cfg rs (step cfg now (Push h b) s)"
| "assigned_ids cfg ((now, r) # rs) s = assigned_ids cfg rs (step cfg now r s)"

text \<open>
  The stored identifiers ascend strictly along the log and lie below the counter. This
  holds in \<open>init_state\<close>; a log read from a file may violate it.
\<close>

definition log_wf :: "state \<Rightarrow> bool" where
  "log_wf s = (sorted_wrt (<) (map id_e (events (copier s)))
               \<and> list_all (\<lambda>e. id_e e < nextId (copier s)) (events (copier s)))"

text \<open>A body that passes both checks of \<^verbatim>\<open>POST /copier/push\<close>.\<close>

definition valid_body :: "push_body \<Rightarrow> bool" where
  "valid_body b = (b_group b \<noteq> '''' \<and> (b_type b = ''OPEN'' \<or> b_type b = ''CLOSE'')
                   \<and> \<not> falsy (b_master_ticket b) \<and> b_symbol b \<noteq> '''')"

text \<open>The \<^verbatim>\<open>lastAckId\<close> that \<^verbatim>\<open>slaves.slaves[k]\<close> holds once the record exists.\<close>

definition lastAck_of :: "state \<Rightarrow> string \<Rightarrow> string \<Rightarrow> jsnum" where
  "lastAck_of s g slaveId = lastAckId (slave_or_new (slaves s) (slaveKey g slaveId))"

section \<open>Sample data\<close>

text \<open>Concrete configurations, clients and states at which the theorems are instantiated.\<close>

definition sample_cfg :: config where
  "sample_cfg = \<lparr>MASTER_KEY = ''mk'', ADMIN_KEY = ''ak''\<rparr>"

definition sample_client :: client where
  "sample_client =
     \<lparr>clientId = ''c1'', fullName = ''Ann'', groupId = ''G1'', apiKey = ''k1'',
      enabled = True, createdAt = 0, expiresAt = 1000, boundSlaveId = ''''\<rparr>"

definition sample_state :: state where
  "sample_state =
     \<lparr>clients = [sample_client], copier = \<lparr>nextId = 1, events = []\<rparr>, slaves = Map.empty\<rparr>"

definition bound_client :: client where
  "bound_client = sample_client\<lparr>boundSlaveId := ''S1''\<rparr>"

definition bound_state :: state where
  "bound_state = sample_state\<lparr>clients := [bound_client]\<rparr>"

definition sample_body :: push_body where
  "sample_body =
     \<lparr>b_group = ''G1'', b_type = ''OPEN'', b_master_ticket = Num 101, b_open_time = Num 0,
      b_symbol = ''EURUSD'', b_cmd = Num 0, b_lots = Num (1 / 10), b_price = Num 0,
      b_sl = Num 0, b_tp = Num 0, b_magic = Num 0\<rparr>"

text \<open>A state whose log holds the events 1 to \<open>n\<close> of group \<^verbatim>\<open>G1\<close>, as \<open>n\<close> pushes of
  \<open>sample_body\<close> at clock value 0 leave it.\<close>

definition flood_state :: "nat \<Rightarrow> state" where
  "flood_state n =
     \<lparr>clients = [sample_client],
      copier = \<lparr>nextId = int n + 1,
                events = map (\<lambda>k. new_event (int k) 0 sample_body) [1..<Suc n]\<rparr>,
      slaves = Map.empty\<rparr>"

section \<open>Basic facts\<close>



lemma find_Some_holds: "find P xs = Some c \<Longrightarrow> P c"
  by (induction xs) (auto split: if_splits)

lemma find_update_first:
  "find P xs = Some c \<Longrightarrow> P (f c) \<Longrightarrow> find P (update_first P f xs) = Some (f c)"
  by (induction xs) (auto split: if_splits)

lemma find_None_iff_set: "find P xs = None \<longleftrightarrow> (\<forall>x\<in>set xs. \<not> P x)"
  by (induction xs) auto

lemma map_update_first_same:
  "(\<And>x. g (f x) = g x) \<Longrightarrow> map g (update_first P f xs) = map g xs"
  by (induction xs) auto

lemma list_all_drop: "list_all P xs \<Longrightarrow> list_all P (drop n xs)"
  by (auto simp: list_all_iff dest: in_set_dropD)

lemma rat_le_of_nat_iff: "(L::rat) \<le> of_nat n \<longleftrightarrow> nat \<lceil>L\<rceil> \<le> n"
proof -
  have "L \<le> of_nat n \<longleftrightarrow> L \<le> of_int (int n)" by simp
  also have "\<dots> \<longleftrightarrow> \<lceil>L\<rceil> \<le> int n" by (simp only: ceiling_le_iff)
  also have "\<dots> \<longleftrightarrow> nat \<lceil>L\<rceil> \<le> n" by linarith
  finally show ?thesis .
qed

section \<open>Facts about the sample data\<close>

lemma trim_samples:
  "trim (or_empty None) = []" "trim (or_empty (Some ''k1'')) = ''k1''"
  "trim (or_empty (Some ''nope'')) = ''nope''" "trim (or_empty (Some '' k1 '')) = ''k1''"
  by (simp_all add: trim_def is_ws_def or_empty_def)

lemma sample_facts:
  "clients sample_state = [sample_client]" "slaves sample_state = Map.empty"
  "copier sample_state = \<lparr>nextId = 1, events = []\<rparr>"
  "boundSlaveId sample_client = ''''" "apiKey sample_client = ''k1''"
  "clientId sample_client = ''c1''" "groupId sample_client = ''G1''"
  "enabled sample_client" "expiresAt sample_client = 1000"
  by (simp_all add: sample_state_def sample_client_def)

lemma bound_facts:
  "clients bound_state = [bound_client]" "slaves bound_state = Map.empty"
  "copier bound_state = \<lparr>nextId = 1, events = []\<rparr>"
  "boundSlaveId bound_client = ''S1''" "apiKey bound_client = ''k1''"
  "clientId bound_client = ''c1''" "groupId bound_client = ''G1''"
  "enabled bound_client" "expiresAt bound_client = 1000"
  by (simp_all add: bound_state_def bound_client_def sample_state_def sample_client_def)

lemma gate_sample:
  "requireClient [sample_client] (Some ''k1'') ''G1'' 500 = Inr sample_client"
  by (simp add: requireClient_def trim_samples findClientByApiKey_def sample_client_def)

lemma gate_bound:
  "requireClient [bound_client] (Some ''k1'') ''G1'' 500 = Inr bound_client"
  by (simp add: requireClient_def trim_samples findClientByApiKey_def bound_facts)

lemma sample_cfg_facts:
  "masterOk sample_cfg (Some ''mk'')" "adminOk sample_cfg (Some ''ak'')"
  "\<not> masterOk sample_cfg None" "\<not> adminOk sample_cfg None"
  by (simp_all add: masterOk_def adminOk_def sample_cfg_def)

lemma sample_body_facts:
  "valid_body sample_body" "b_group sample_body = ''G1''" "b_type sample_body = ''OPEN''"
  "b_symbol sample_body = ''EURUSD''" "b_master_ticket sample_body = Num 101"
  by (simp_all add: valid_body_def sample_body_def)

lemma id_new_event: "id_e (new_event n t b) = n" "group_e (new_event n t b) = b_group b"
  by (simp_all add: new_event_def)

lemma flood_len: "length (events (copier (flood_state n))) = n"
  by (simp add: flood_state_def)

lemma flood_nextId: "nextId (copier (flood_state n)) = int n + 1"
  by (simp add: flood_state_def)

lemma flood_clients: "clients (flood_state n) = [sample_client]"
  by (simp add: flood_state_def)

lemma flood_wf: "log_wf (flood_state n)"
proof -
  have "sorted_wrt (\<lambda>x y. int x < int y) [1..<Suc n]"
    by (rule sorted_wrt_mono_rel [OF _ sorted_wrt_upt]) simp
  then show ?thesis
    by (auto simp: log_wf_def flood_state_def sorted_wrt_map id_new_event list_all_iff)
qed

lemma flood_state_0: "flood_state 0 = sample_state"
  by (simp add: flood_state_def sample_state_def)

lemma flood_state_2:
  "events (copier (flood_state 2)) = [new_event 1 0 sample_body, new_event 2 0 sample_body]"
proof -
  have "[1..<Suc 2] = [1, 2]" by code_simp
  then show ?thesis by (simp add: flood_state_def)
qed

section \<open>What the handlers read and assign\<close>

lemma saveCopier_proj:
  "events (copier (saveCopier s)) = slice_last 50000 (events (copier s))"
  "nextId (copier (saveCopier s)) = nextId (copier s)"
  "clients (saveCopier s) = clients s"
  "slaves (saveCopier s) = slaves s"
  by (simp_all add: saveCopier_def slice_last_def)

lemma touch_proj:
  "clients (touch k now s) = clients s" "copier (touch k now s) = copier s"
  by (simp_all add: touch_def)

lemma bind_proj:
  "copier (bind k i s) = copier s" "slaves (bind k i s) = slaves s"
  by (simp_all add: bind_def)

lemma push_fst:
  "fst (push cfg h now b s) =
     (if \<not> masterOk cfg h then Inl (Unauthorized ''unauthorized master'')
      else if b_group b = '''' \<or> (b_type b \<noteq> ''OPEN'' \<and> b_type b \<noteq> ''CLOSE'')
        then Inl (InvalidInput ''bad group/type'')
      else if falsy (b_master_ticket b) \<or> b_symbol b = ''''
        then Inl (InvalidInput ''missing master_ticket/symbol'')
      else Inr (nextId (copier s)))"
  by (simp add: push_def Let_def new_event_def)

lemma push_Inr_iff:
  "fst (push cfg h now b s) = Inr n \<longleftrightarrow> masterOk cfg h \<and> valid_body b \<and> n = nextId (copier s)"
  by (auto simp: push_fst valid_body_def)

lemma push_nextId:
  "nextId (copier (snd (push cfg h now b s))) =
     (if masterOk cfg h \<and> b_group b \<noteq> '''' \<and> (b_type b = ''OPEN'' \<or> b_type b = ''CLOSE'')
      then nextId (copier s) + 1 else nextId (copier s))"
  by (simp add: push_def Let_def saveCopier_proj)

lemma push_events:
  "events (copier (snd (push cfg h now b s))) =
     (if masterOk cfg h \<and> valid_body b
      then slice_last 50000 (events (copier s) @ [new_event (nextId (copier s)) now b])
      else events (copier s))"
  by (auto simp: push_def Let_def saveCopier_proj valid_body_def new_event_def)

lemma push_clients: "clients (snd (push cfg h now b s)) = clients s"
  by (simp add: push_def Let_def saveCopier_proj)

lemma push_slaves: "slaves (snd (push cfg h now b s)) = slaves s"
  by (simp add: push_def Let_def saveCopier_proj)

lemma push_sample_eval:
  "masterOk cfg h \<Longrightarrow> valid_body b \<Longrightarrow> length (events (copier s)) < 50000 \<Longrightarrow>
   push cfg h t b s =
     (Inr (nextId (copier s)),
      s\<lparr>copier := \<lparr>nextId = nextId (copier s) + 1,
                    events = events (copier s) @ [new_event (nextId (copier s)) t b]\<rparr>\<rparr>)"
  by (auto simp: push_def Let_def valid_body_def new_event_def saveCopier_def)

lemma push_last_event:
  assumes "fst (push cfg h t b s) = Inr n"
  shows "last (events (copier (snd (push cfg h t b s)))) = new_event n t b"
proof -
  from assms have ok: "masterOk cfg h \<and> valid_body b" and n: "n = nextId (copier s)"
    by (simp_all add: push_Inr_iff)
  have "events (copier (snd (push cfg h t b s)))
          = drop (length (events (copier s) @ [new_event n t b]) - 50000)
              (events (copier s) @ [new_event n t b])"
    using ok by (simp add: push_events slice_last_def n)
  then show ?thesis by (simp add: last_drop)
qed

lemma requireClient_Inr_find:
  "requireClient cs hdr g now = Inr c \<Longrightarrow> findClientByApiKey cs (trim (or_empty hdr)) = Some c"
  by (auto simp: requireClient_def Let_def split: if_splits option.splits)

lemma ack_clients: "clients (snd (ack hdr now g i e st s)) = clients s"
  by (simp add: ack_def Let_def split: sum.splits)

lemma ack_copier: "copier (snd (ack hdr now g i e st s)) = copier s"
  by (simp add: ack_def Let_def split: sum.splits)

lemma registerSlave_copier: "copier (snd (registerSlave h now g i s)) = copier s"
  by (simp add: registerSlave_def touch_proj bind_proj split: sum.splits)

lemma pollEvents_copier: "copier (snd (pollEvents h now g i since limit_q s)) = copier s"
  by (simp add: pollEvents_def Let_def touch_proj bind_proj split: sum.splits)

lemma admin_copier:
  "copier (snd (adminList cfg h s)) = copier s"
  "copier (snd (adminAdd cfg h now fn gid d newId newKey s)) = copier s"
  "copier (snd (adminDisable cfg h cid en s)) = copier s"
  "copier (snd (adminExtend cfg h now cid d s)) = copier s"
  "copier (snd (adminResetBind cfg h cid s)) = copier s"
  "copier (snd (adminDelete cfg h cid s)) = copier s"
  by (simp_all add: adminList_def adminAdd_def adminDisable_def adminExtend_def
        adminResetBind_def adminDelete_def Let_def split: option.splits)

lemma registerSlave_clients:
  "clients (snd (registerSlave h t g i s)) =
     (if g \<noteq> '''' \<and> i \<noteq> '''' \<and> (\<exists>c. requireClient (clients s) h g t = Inr c \<and> boundSlaveId c = '''')
      then update_first (\<lambda>x. apiKey x = trim (or_empty h)) (\<lambda>x. x\<lparr>boundSlaveId := i\<rparr>) (clients s)
      else clients s)"
  by (auto simp: registerSlave_def touch_proj bind_def split: sum.splits)

lemma pollEvents_clients:
  "clients (snd (pollEvents h t g i since limit_q s)) =
     (if g \<noteq> '''' \<and> i \<noteq> '''' \<and> (\<exists>c. requireClient (clients s) h g t = Inr c \<and> boundSlaveId c = '''')
      then update_first (\<lambda>x. apiKey x = trim (or_empty h)) (\<lambda>x. x\<lparr>boundSlaveId := i\<rparr>) (clients s)
      else clients s)"
  by (auto simp: pollEvents_def Let_def touch_proj bind_def split: sum.splits)

lemma admin_bindings:
  "clients (snd (adminList cfg h s)) = clients s"
  "map boundSlaveId (clients (snd (adminDisable cfg h cid en s))) = map boundSlaveId (clients s)"
  "map boundSlaveId (clients (snd (adminExtend cfg h now cid d s))) = map boundSlaveId (clients s)"
  by (simp_all add: adminList_def adminDisable_def adminExtend_def Let_def
        map_update_first_same split: option.splits)

lemma adminAdd_clients:
  "clients (snd (adminAdd cfg h now fn gid d newId newKey s)) = clients s
   \<or> (\<exists>c. clients (snd (adminAdd cfg h now fn gid d newId newKey s)) = clients s @ [c]
         \<and> boundSlaveId c = '''')"
  by (simp add: adminAdd_def Let_def)

lemma adminDelete_clients:
  "clients (snd (adminDelete cfg h cid s)) = clients s
   \<or> clients (snd (adminDelete cfg h cid s)) = filter (\<lambda>x. clientId x \<noteq> cid) (clients s)"
  by (simp add: adminDelete_def)

section \<open>Binding a slave to a client\<close>

lemma bound_after_first_bind:
  assumes "requireClient cs h g t = Inr c"
  shows "findClientByApiKey
           (update_first (\<lambda>x. apiKey x = trim (or_empty h)) (\<lambda>x. x\<lparr>boundSlaveId := i\<rparr>) cs)
           (trim (or_empty h)) = Some (c\<lparr>boundSlaveId := i\<rparr>)"
proof -
  have f: "find (\<lambda>x. apiKey x = trim (or_empty h)) cs = Some c"
    using requireClient_Inr_find [OF assms] by (simp add: findClientByApiKey_def)
  have "apiKey c = trim (or_empty h)" using find_Some_holds [OF f] .
  then show ?thesis
    unfolding findClientByApiKey_def by (intro find_update_first [OF f]) simp
qed

lemma first_bind_reply:
  assumes "g \<noteq> ''''" "i \<noteq> ''''" "requireClient (clients s) h g t = Inr c" "boundSlaveId c = ''''"
  shows "fst (registerSlave h t g i s) = Inr i"
    and "\<exists>out. fst (pollEvents h t g i since limit_q s) = Inr out"
  using assms by (simp_all add: registerSlave_def pollEvents_def Let_def)

lemma other_slave_forbidden:
  assumes "g \<noteq> ''''" "i \<noteq> ''''" "requireClient (clients s) h g t = Inr c"
    "boundSlaveId c \<noteq> ''''" "boundSlaveId c \<noteq> i"
  shows "\<exists>msg. registerSlave h t g i s = (Inl (Forbidden msg), s)"
    and "\<exists>msg. pollEvents h t g i since limit_q s = (Inl (Forbidden msg), s)"
  using assms by (simp_all add: registerSlave_def pollEvents_def Let_def)

lemma step_bindings:
  assumes "\<forall>h cid. r \<noteq> AdminResetBind h cid"
  shows "map boundSlaveId (clients (step cfg t r s)) = map boundSlaveId (clients s)
     \<or> (\<exists>h g i c. (r = RegisterSlave h g i \<or> (\<exists>since limit_q. r = PollEvents h g i since limit_q))
           \<and> g \<noteq> '''' \<and> i \<noteq> '''' \<and> requireClient (clients s) h g t = Inr c \<and> boundSlaveId c = ''''
           \<and> clients (step cfg t r s)
               = update_first (\<lambda>x. apiKey x = trim (or_empty h)) (\<lambda>x. x\<lparr>boundSlaveId := i\<rparr>)
                   (clients s))
     \<or> (\<exists>h fn gid d newId newKey c. r = AdminAdd h fn gid d newId newKey
           \<and> clients (step cfg t r s) = clients s @ [c] \<and> boundSlaveId c = '''')
     \<or> (\<exists>h cid. r = AdminDelete h cid
           \<and> clients (step cfg t r s) = filter (\<lambda>x. clientId x \<noteq> cid) (clients s))"
proof (cases r)
  case (Push h b)
  then show ?thesis by (simp add: push_clients)
next
  case (RegisterSlave h g i)
  then show ?thesis by (auto simp: registerSlave_clients)
next
  case (PollEvents h g i since limit_q)
  then show ?thesis by (auto simp: pollEvents_clients)
next
  case (Ack h g i e st)
  then show ?thesis by (simp add: ack_clients)
next
  case (AdminList h)
  then show ?thesis by (simp add: admin_bindings)
next
  case (AdminAdd h fn gid d newId newKey)
  then show ?thesis using adminAdd_clients [of cfg h t fn gid d newId newKey s] by auto
next
  case (AdminDisable h cid en)
  then show ?thesis by (simp add: admin_bindings)
next
  case (AdminExtend h cid d)
  then show ?thesis by (simp add: admin_bindings)
next
  case (AdminResetBind h cid)
  then show ?thesis using assms by simp
next
  case (AdminDelete h cid)
  then show ?thesis using adminDelete_clients [of cfg h cid s] by auto
qed

text \<open>
  Claim C1. A client holds one \<^verbatim>\<open>boundSlaveId\<close>. For a register or poll request that
  reaches the gate and passes it with client \<open>c\<close>: when \<open>c\<close> is unbound the call succeeds
  and assigns the supplied \<^verbatim>\<open>slaveId\<close> to \<open>c\<close> and to no other client (the first client
  with the key, which the same key then finds bound); when \<open>c\<close> is bound to a different
  \<^verbatim>\<open>slaveId\<close> the call fails with Forbidden and the state is unchanged. For every request
  other than the admin's reset of the binding, the bindings of the clients are the same
  after it as before, position by position, unless the request is such a first bind, or it
  adds a new, unbound client at the end, or it deletes clients and leaves the others as
  they were.
\<close>

theorem single_binding:
  "(\<forall>c. g \<noteq> '''' \<and> i \<noteq> '''' \<and> requireClient (clients s) h g t = Inr c \<longrightarrow>
      (boundSlaveId c = '''' \<longrightarrow>
          fst (registerSlave h t g i s) = Inr i
        \<and> (\<exists>out. fst (pollEvents h t g i since limit_q s) = Inr out)
        \<and> clients (snd (registerSlave h t g i s))
            = update_first (\<lambda>x. apiKey x = trim (or_empty h)) (\<lambda>x. x\<lparr>boundSlaveId := i\<rparr>) (clients s)
        \<and> clients (snd (pollEvents h t g i since limit_q s))
            = update_first (\<lambda>x. apiKey x = trim (or_empty h)) (\<lambda>x. x\<lparr>boundSlaveId := i\<rparr>) (clients s)
        \<and> findClientByApiKey
             (update_first (\<lambda>x. apiKey x = trim (or_empty h)) (\<lambda>x. x\<lparr>boundSlaveId := i\<rparr>) (clients s))
             (trim (or_empty h)) = Some (c\<lparr>boundSlaveId := i\<rparr>))
    \<and> (boundSlaveId c \<noteq> '''' \<and> boundSlaveId c \<noteq> i \<longrightarrow>
          (\<exists>msg. registerSlave h t g i s = (Inl (Forbidden msg), s))
        \<and> (\<exists>msg. pollEvents h t g i since limit_q s = (Inl (Forbidden msg), s))))
   \<and> (\<forall>r. (\<forall>h' cid. r \<noteq> AdminResetBind h' cid) \<longrightarrow>
        map boundSlaveId (clients (step cfg t r s)) = map boundSlaveId (clients s)
      \<or> (\<exists>h' g' i' c. (r = RegisterSlave h' g' i' \<or> (\<exists>since' limit_q'. r = PollEvents h' g' i' since' limit_q'))
            \<and> g' \<noteq> '''' \<and> i' \<noteq> '''' \<and> requireClient (clients s) h' g' t = Inr c \<and> boundSlaveId c = ''''
            \<and> clients (step cfg t r s)
                = update_first (\<lambda>x. apiKey x = trim (or_empty h')) (\<lambda>x. x\<lparr>boundSlaveId := i'\<rparr>)
                    (clients s))
      \<or> (\<exists>h' fn gid d newId newKey c. r = AdminAdd h' fn gid d newId newKey
            \<and> clients (step cfg t r s) = clients s @ [c] \<and> boundSlaveId c = '''')
      \<or> (\<exists>h' cid. r = AdminDelete h' cid
            \<and> clients (step cfg t r s) = filter (\<lambda>x. clientId x \<noteq> cid) (clients s)))"
proof -
  have a: "\<forall>c. g \<noteq> '''' \<and> i \<noteq> '''' \<and> requireClient (clients s) h g t = Inr c \<longrightarrow>
      (boundSlaveId c = '''' \<longrightarrow>
          fst (registerSlave h t g i s) = Inr i
        \<and> (\<exists>out. fst (pollEvents h t g i since limit_q s) = Inr out)
        \<and> clients (snd (registerSlave h t g i s))
            = update_first (\<lambda>x. apiKey x = trim (or_empty h)) (\<lambda>x. x\<lparr>boundSlaveId := i\<rparr>) (clients s)
        \<and> clients (snd (pollEvents h t g i since limit_q s))
            = update_first (\<lambda>x. apiKey x = trim (or_empty h)) (\<lambda>x. x\<lparr>boundSlaveId := i\<rparr>) (clients s)
        \<and> findClientByApiKey
             (update_first (\<lambda>x. apiKey x = trim (or_empty h)) (\<lambda>x. x\<lparr>boundSlaveId := i\<rparr>) (clients s))
             (trim (or_empty h)) = Some (c\<lparr>boundSlaveId := i\<rparr>))
    \<and> (boundSlaveId c \<noteq> '''' \<and> boundSlaveId c \<noteq> i \<longrightarrow>
          (\<exists>msg. registerSlave h t g i s = (Inl (Forbidden msg), s))
        \<and> (\<exists>msg. pollEvents h t g i since limit_q s = (Inl (Forbidden msg), s)))"
  proof (intro allI impI conjI; (elim conjE)?)
    fix c
    assume g: "g \<noteq> ''''" and i: "i \<noteq> ''''" and rc: "requireClient (clients s) h g t = Inr c"
    {
      assume u: "boundSlaveId c = ''''"
      show "fst (registerSlave h t g i s) = Inr i"
        by (rule first_bind_reply(1) [OF g i rc u])
      show "\<exists>out. fst (pollEvents h t g i since limit_q s) = Inr out"
        by (rule first_bind_reply(2) [OF g i rc u])
      show "clients (snd (registerSlave h t g i s))
            = update_first (\<lambda>x. apiKey x = trim (or_empty h)) (\<lambda>x. x\<lparr>boundSlaveId := i\<rparr>) (clients s)"
        using g i rc u by (simp add: registerSlave_clients)
      show "clients (snd (pollEvents h t g i since limit_q s))
            = update_first (\<lambda>x. apiKey x = trim (or_empty h)) (\<lambda>x. x\<lparr>boundSlaveId := i\<rparr>) (clients s)"
        using g i rc u by (simp add: pollEvents_clients)
      show "findClientByApiKey
             (update_first (\<lambda>x. apiKey x = trim (or_empty h)) (\<lambda>x. x\<lparr>boundSlaveId := i\<rparr>) (clients s))
             (trim (or_empty h)) = Some (c\<lparr>boundSlaveId := i\<rparr>)"
        by (rule bound_after_first_bind [OF rc])
    }
    {
      assume b: "boundSlaveId c \<noteq> ''''" and d: "boundSlaveId c \<noteq> i"
      show "\<exists>msg. registerSlave h t g i s = (Inl (Forbidden msg), s)"
        by (rule other_slave_forbidden(1) [OF g i rc b d])
      show "\<exists>msg. pollEvents h t g i since limit_q s = (Inl (Forbidden msg), s)"
        by (rule other_slave_forbidden(2) [OF g i rc b d])
    }
  qed
  show ?thesis using a step_bindings [of _ cfg t s] by blast
qed

theorem single_binding_witness:
  "fst (registerSlave (Some ''k1'') 500 ''G1'' ''S1'' sample_state) = Inr ''S1''
   \<and> clients (snd (registerSlave (Some ''k1'') 500 ''G1'' ''S1'' sample_state)) = [bound_client]
   \<and> clients (snd (pollEvents (Some ''k1'') 500 ''G1'' ''S1'' (Num 0) (Num 10) sample_state))
       = [bound_client]
   \<and> boundSlaveId bound_client = ''S1''
   \<and> registerSlave (Some ''k1'') 500 ''G1'' ''S2'' bound_state
       = (Inl (Forbidden ''this api key is already bound to another slaveId''), bound_state)
   \<and> pollEvents (Some ''k1'') 500 ''G1'' ''S2'' (Num 0) (Num 10) bound_state
       = (Inl (Forbidden ''boundSlaveId mismatch (1 account per client)''), bound_state)
   \<and> map boundSlaveId (clients (step sample_cfg 500 (AdminExtend (Some ''ak'') ''c1'' ''M1'') bound_state))
       = [''S1'']"
proof -
  note t1 = single_binding [where g = "''G1''" and i = "''S1''" and s = sample_state
      and h = "Some ''k1''" and t = 500 and since = "Num 0" and limit_q = "Num 10" and cfg = sample_cfg]
  note t2 = single_binding [where g = "''G1''" and i = "''S2''" and s = bound_state
      and h = "Some ''k1''" and t = 500 and since = "Num 0" and limit_q = "Num 10" and cfg = sample_cfg]
  have a: "fst (registerSlave (Some ''k1'') 500 ''G1'' ''S1'' sample_state) = Inr ''S1''
     \<and> clients (snd (registerSlave (Some ''k1'') 500 ''G1'' ''S1'' sample_state)) = [bound_client]
     \<and> clients (snd (pollEvents (Some ''k1'') 500 ''G1'' ''S1'' (Num 0) (Num 10) sample_state))
         = [bound_client]"
    using t1 by (simp add: sample_facts gate_sample trim_samples bound_client_def)
  have b: "registerSlave (Some ''k1'') 500 ''G1'' ''S2'' bound_state
       = (Inl (Forbidden ''this api key is already bound to another slaveId''), bound_state)
     \<and> pollEvents (Some ''k1'') 500 ''G1'' ''S2'' (Num 0) (Num 10) bound_state
       = (Inl (Forbidden ''boundSlaveId mismatch (1 account per client)''), bound_state)"
    using t2 by (simp add: bound_facts gate_bound registerSlave_def pollEvents_def)
  have c: "map boundSlaveId (clients (step sample_cfg 500 (AdminExtend (Some ''ak'') ''c1'' ''M1'') bound_state))
       = [''S1'']"
    using t2 [THEN conjunct2, rule_format, of "AdminExtend (Some ''ak'') ''c1'' ''M1''"]
    by (simp add: bound_facts)
  show ?thesis using a b c by (simp add: bound_facts)
qed

section \<open>Polling events\<close>

lemma scan_NaN_limit:
  "scan evs g since NaN out
     = out @ filter (\<lambda>e. group_e e = g \<and> \<not> js_le (Num (of_int (id_e e))) since) evs"
  by (induction evs arbitrary: out) (simp_all add: Let_def)

lemma effective_limit_NaN: "effective_limit NaN = NaN"
  by (simp add: effective_limit_def)

lemma effective_limit_Num: "effective_limit (Num l) = Num (min 500 (max 1 l))"
  by (simp add: effective_limit_def)

text \<open>
  For a finite limit \<open>L\<close> the loop returns the first \<open>\<lceil>L\<rceil>\<close> matching events, and a poll
  with finite \<^verbatim>\<open>since\<close> and \<^verbatim>\<open>limit\<close> returns that prefix of the matching events for the
  clamped limit.
\<close>

lemma scan_finite_limit:
  "of_nat (length out) < L \<Longrightarrow>
   scan evs g since (Num L) out
     = out @ take (nat \<lceil>L\<rceil> - length out)
               (filter (\<lambda>e. group_e e = g \<and> \<not> js_le (Num (of_int (id_e e))) since) evs)"
proof (induction evs arbitrary: out)
  case Nil
  show ?case by simp
next
  case (Cons ev evs)
  let ?P = "\<lambda>e. group_e e = g \<and> \<not> js_le (Num (of_int (id_e e))) since"
  have lt: "length out < nat \<lceil>L\<rceil>"
    using Cons.prems rat_le_of_nat_iff [of L "length out"] by linarith
  show ?case
  proof (cases "?P ev")
    case False
    then show ?thesis using Cons.IH [OF Cons.prems] by auto
  next
    case True
    show ?thesis
    proof (cases "L \<le> of_nat (Suc (length out))")
      case stop: True
      then have "nat \<lceil>L\<rceil> \<le> Suc (length out)"
        using rat_le_of_nat_iff [of L "Suc (length out)"] by blast
      with lt have "nat \<lceil>L\<rceil> - length out = Suc 0" by linarith
      then show ?thesis using True stop by (simp add: Let_def)
    next
      case go: False
      then have p: "of_nat (length (out @ [ev])) < L" by simp
      have "\<not> nat \<lceil>L\<rceil> \<le> Suc (length out)"
        using go rat_le_of_nat_iff [of L "Suc (length out)"] by blast
      then have "nat \<lceil>L\<rceil> - length out = Suc (nat \<lceil>L\<rceil> - length (out @ [ev]))" by simp
      then show ?thesis using True go Cons.IH [OF p] by (simp add: Let_def)
    qed
  qed
qed

lemma pollEvents_Inr_scan:
  "fst (pollEvents h t g i since limit_q s) = Inr out
     \<Longrightarrow> out = scan (events (copier s)) g since (effective_limit limit_q) []"
  by (auto simp: pollEvents_def Let_def touch_proj bind_proj split: if_splits sum.splits)

lemma pollEvents_finite_inputs:
  assumes "fst (pollEvents h t g i (Num q) (Num l) s) = Inr out"
  shows "out = take (nat \<lceil>min 500 (max 1 l)\<rceil>)
                 (filter (\<lambda>e. group_e e = g \<and> q < of_int (id_e e)) (events (copier s)))"
proof -
  have "(0::rat) < min 500 (max 1 l)" by simp
  then have "of_nat (length ([]::event list)) < min 500 (max 1 l)" by simp
  from scan_finite_limit [OF this] pollEvents_Inr_scan [OF assms]
  show ?thesis by (simp add: effective_limit_Num not_le)
qed

lemma pollEvents_finite_sorted:
  assumes "fst (pollEvents h t g i (Num q) (Num l) s) = Inr out" and "log_wf s"
  shows "sorted_wrt (<) (map id_e out)"
proof -
  have "sorted_wrt (\<lambda>x y. id_e x < id_e y) (events (copier s))"
    using assms(2) by (simp add: log_wf_def sorted_wrt_map)
  then show ?thesis
    unfolding pollEvents_finite_inputs [OF assms(1)] sorted_wrt_map
    by (intro sorted_wrt_take sorted_wrt_filter)
qed

lemma pollEvents_integer_limit:
  assumes "fst (pollEvents h t g i (Num q) (Num (of_int z)) s) = Inr out"
  shows "int (length out) \<le> min 500 (max 1 z)"
proof -
  have "min 500 (max 1 (of_int z :: rat)) = of_int (min 500 (max 1 z))" by simp
  then have "nat \<lceil>min 500 (max 1 (of_int z :: rat))\<rceil> = nat (min 500 (max 1 z))"
    by (simp only: ceiling_of_int)
  then have "length out \<le> nat (min 500 (max 1 z))"
    unfolding pollEvents_finite_inputs [OF assms] by simp
  then show ?thesis by linarith
qed

text \<open>\<open>flood_state n\<close> is the state after \<open>n\<close> pushes, up to the capacity of the log.\<close>

lemma flood_state_step:
  assumes "n < 50000"
  shows "step sample_cfg 0 (Push (Some ''mk'') sample_body) (flood_state n) = flood_state (Suc n)"
proof -
  have "length (events (copier (flood_state n))) < 50000" using assms by (simp add: flood_len)
  then have "push sample_cfg (Some ''mk'') 0 sample_body (flood_state n)
      = (Inr (nextId (copier (flood_state n))),
         (flood_state n)\<lparr>copier := \<lparr>nextId = nextId (copier (flood_state n)) + 1,
            events = events (copier (flood_state n))
                       @ [new_event (nextId (copier (flood_state n))) 0 sample_body]\<rparr>\<rparr>)"
    by (intro push_sample_eval sample_cfg_facts sample_body_facts)
  then show ?thesis by (simp add: flood_state_def add.commute)
qed

lemma flood_state_reachable:
  "m + n \<le> 50000 \<Longrightarrow>
   run sample_cfg (replicate n (0, Push (Some ''mk'') sample_body)) (flood_state m)
     = flood_state (m + n)"
proof (induction n arbitrary: m)
  case 0
  show ?case by simp
next
  case (Suc n)
  then have "m < 50000" and "Suc m + n \<le> 50000" by simp_all
  then show ?case using Suc.IH [of "Suc m"] by (simp add: flood_state_step del: step.simps)
qed

lemma scan_flood_NaN:
  "scan (events (copier (flood_state n))) ''G1'' (Num 0) NaN [] = events (copier (flood_state n))"
proof -
  have "filter (\<lambda>e. group_e e = ''G1'' \<and> \<not> js_le (Num (of_int (id_e e))) (Num 0))
     (events (copier (flood_state n))) = events (copier (flood_state n))"
    by (auto simp: flood_state_def id_new_event sample_body_facts intro!: filter_True)
  then show ?thesis by (simp only: scan_NaN_limit append_Nil)
qed

lemma pollEvents_sample_flood:
  "fst (pollEvents (Some ''k1'') 500 ''G1'' ''S1'' since limit_q (flood_state n))
     = Inr (scan (events (copier (flood_state n))) ''G1'' since (effective_limit limit_q) [])"
  by (simp add: pollEvents_def Let_def flood_clients gate_sample sample_facts touch_proj bind_proj)

text \<open>
  Claim C2. For a finite \<^verbatim>\<open>since\<close> and a finite \<^verbatim>\<open>limit\<close> the reply of a poll is a prefix of
  the events of the requested group with an identifier above \<^verbatim>\<open>since\<close>, in the order of
  the log, and for an integer \<^verbatim>\<open>limit\<close> its length is at most the limit clamped to
  1..500 (\<open>pollEvents_finite_inputs\<close>, \<open>pollEvents_integer_limit\<close>,
  \<open>pollEvents_finite_sorted\<close>). The bound on the length does not hold for every
  query. With \<^verbatim>\<open>limit=abc\<close> the handler computes \<^verbatim>\<open>Math.min(500, Math.max(1, NaN))\<close>, which
  is \<^verbatim>\<open>NaN\<close>; \<^verbatim>\<open>out.length >= NaN\<close> is never true, the loop never breaks, and on a log of
  501 events of the group the reply holds all 501 of them.
\<close>

theorem pollEvents_limit_not_enforced:
  "effective_limit NaN = NaN
   \<and> fst (pollEvents (Some ''k1'') 500 ''G1'' ''S1'' (Num 0) NaN (flood_state 501))
       = Inr (events (copier (flood_state 501)))
   \<and> length (events (copier (flood_state 501))) = 501"
  by (simp add: pollEvents_sample_flood effective_limit_NaN scan_flood_NaN flood_len)

text \<open>
  A fractional limit is rounded up (\<^verbatim>\<open>limit=1.5\<close> yields two events), and with a
  \<^verbatim>\<open>since\<close> that is not a number (\<^verbatim>\<open>since=abc\<close>) no event is skipped for its identifier.
\<close>

lemma pollEvents_fractional_limit:
  "fst (pollEvents (Some ''k1'') 500 ''G1'' ''S1'' (Num 0) (Num (3 / 2)) (flood_state 2))
     = Inr [new_event 1 0 sample_body, new_event 2 0 sample_body]"
  by (simp add: pollEvents_sample_flood effective_limit_Num flood_state_2 id_new_event
        sample_body_facts Let_def)

lemma pollEvents_NaN_since:
  "fst (pollEvents (Some ''k1'') 500 ''G1'' ''S1'' NaN (Num 10) (flood_state 2))
     = Inr [new_event 1 0 sample_body, new_event 2 0 sample_body]"
  by (simp add: pollEvents_sample_flood effective_limit_Num flood_state_2 id_new_event
        sample_body_facts Let_def)

section \<open>Acknowledgements and the cursor\<close>

lemma ack_Inr_D:
  assumes "fst (ack hdr now g i e st s) = Inr u"
  shows "\<exists>x. e = Num x \<and> x \<noteq> 0"
    and "snd (ack hdr now g i e st s) =
          s\<lparr>slaves := (slaves s)(slaveKey g i \<mapsto>
               (slave_or_new (slaves s) (slaveKey g i))
                 \<lparr>lastAckId := Math_max (or_zero (lastAck_of s g i)) e, lastSeenAt := now\<rparr>)\<rparr>"
proof -
  show "\<exists>x. e = Num x \<and> x \<noteq> 0"
    using assms by (cases e) (auto simp: ack_def)
  show "snd (ack hdr now g i e st s) =
          s\<lparr>slaves := (slaves s)(slaveKey g i \<mapsto>
               (slave_or_new (slaves s) (slaveKey g i))
                 \<lparr>lastAckId := Math_max (or_zero (lastAck_of s g i)) e, lastSeenAt := now\<rparr>)\<rparr>"
    using assms
    by (auto simp: ack_def Let_def lastAck_of_def split: if_splits sum.splits)
qed

lemma or_zero_Num: "\<exists>c. or_zero v = Num c \<and> (\<forall>d. v = Num d \<longrightarrow> c = d)"
  by (cases v) (auto simp: or_zero_def)

lemma lastAck_after_ack:
  assumes "fst (ack hdr now g i (Num x) st s) = Inr u" and "or_zero (lastAck_of s g i) = Num c"
  shows "lastAck_of (snd (ack hdr now g i (Num x) st s)) g i = Num (max c x)"
  using ack_Inr_D(2) [OF assms(1)] assms(2)
  by (simp add: lastAck_of_def slave_or_new_def)

text \<open>
  Claim C3. A successful \<^verbatim>\<open>ack\<close> for \<open>(g, i)\<close> carries a non-zero number \<open>x\<close>; after
  it the cursor record exists, and its \<^verbatim>\<open>lastAckId\<close> is \<open>max 0 x\<close> when there was no
  record and \<open>max c x\<close> when the record held \<open>c\<close>. A second successful \<^verbatim>\<open>ack\<close> never
  lowers \<^verbatim>\<open>lastAckId\<close>, leaves it as it is when it repeats the same identifier, and after
  acking 5 and then 3 (from a cursor of at most 5) \<^verbatim>\<open>lastAckId\<close> is 5.
\<close>

theorem ack_monotone:
  assumes ok: "fst (ack hdr now g i e st s) = Inr ()"
  shows "\<exists>x. e = Num x \<and> x \<noteq> 0
    \<and> (let s' = snd (ack hdr now g i e st s) in
         slaves s' (slaveKey g i) \<noteq> None
       \<and> (slaves s (slaveKey g i) = None \<longrightarrow> lastAck_of s' g i = Num (max 0 x))
       \<and> (\<forall>c. lastAck_of s g i = Num c \<longrightarrow> lastAck_of s' g i = Num (max c x))
       \<and> (\<forall>hdr2 now2 e2 st2. fst (ack hdr2 now2 g i e2 st2 s') = Inr () \<longrightarrow>
            (let s'' = snd (ack hdr2 now2 g i e2 st2 s') in
               js_le (lastAck_of s' g i) (lastAck_of s'' g i)
             \<and> (e2 = e \<longrightarrow> lastAck_of s'' g i = lastAck_of s' g i)
             \<and> (\<forall>c. lastAck_of s g i = Num c \<and> c \<le> 5 \<and> e = Num 5 \<and> e2 = Num 3 \<longrightarrow>
                  lastAck_of s'' g i = Num 5))))"
proof -
  from ack_Inr_D(1) [OF ok] obtain x where e: "e = Num x" and x: "x \<noteq> 0" by blast
  let ?s' = "snd (ack hdr now g i e st s)"
  obtain c0 where c0: "or_zero (lastAck_of s g i) = Num c0"
    and c0eq: "\<forall>d. lastAck_of s g i = Num d \<longrightarrow> c0 = d"
    using or_zero_Num by blast
  have s': "lastAck_of ?s' g i = Num (max c0 x)"
    using lastAck_after_ack ok c0 unfolding e by blast
  have ex: "slaves ?s' (slaveKey g i) \<noteq> None"
    using ack_Inr_D(2) [OF ok] by simp
  have fresh: "slaves s (slaveKey g i) = None \<longrightarrow> lastAck_of ?s' g i = Num (max 0 x)"
  proof
    assume "slaves s (slaveKey g i) = None"
    then have "lastAck_of s g i = Num 0" by (simp add: lastAck_of_def slave_or_new_def)
    with c0eq s' show "lastAck_of ?s' g i = Num (max 0 x)" by simp
  qed
  have cur: "\<forall>c. lastAck_of s g i = Num c \<longrightarrow> lastAck_of ?s' g i = Num (max c x)"
    using c0eq s' by auto
  have second: "\<forall>hdr2 now2 e2 st2. fst (ack hdr2 now2 g i e2 st2 ?s') = Inr () \<longrightarrow>
            (let s'' = snd (ack hdr2 now2 g i e2 st2 ?s') in
               js_le (lastAck_of ?s' g i) (lastAck_of s'' g i)
             \<and> (e2 = e \<longrightarrow> lastAck_of s'' g i = lastAck_of ?s' g i)
             \<and> (\<forall>c. lastAck_of s g i = Num c \<and> c \<le> 5 \<and> e = Num 5 \<and> e2 = Num 3 \<longrightarrow>
                  lastAck_of s'' g i = Num 5))"
  proof (intro allI impI)
    fix hdr2 now2 e2 st2
    assume ok2: "fst (ack hdr2 now2 g i e2 st2 ?s') = Inr ()"
    from ack_Inr_D(1) [OF ok2] obtain y where e2: "e2 = Num y" by blast
    have z: "or_zero (lastAck_of ?s' g i) = Num (max c0 x)"
      using s' x by (auto simp: or_zero_def max_def)
    have s'': "lastAck_of (snd (ack hdr2 now2 g i e2 st2 ?s')) g i = Num (max (max c0 x) y)"
      using lastAck_after_ack ok2 z unfolding e2 by blast
    show "let s'' = snd (ack hdr2 now2 g i e2 st2 ?s') in
               js_le (lastAck_of ?s' g i) (lastAck_of s'' g i)
             \<and> (e2 = e \<longrightarrow> lastAck_of s'' g i = lastAck_of ?s' g i)
             \<and> (\<forall>c. lastAck_of s g i = Num c \<and> c \<le> 5 \<and> e = Num 5 \<and> e2 = Num 3 \<longrightarrow>
                  lastAck_of s'' g i = Num 5)"
      using s' s'' c0eq e e2 by (auto simp: Let_def)
  qed
  show ?thesis using e x ex fresh cur second by (simp add: Let_def)
qed

theorem ack_monotone_witness:
  "fst (ack (Some ''k1'') 500 ''G1'' ''S1'' (Num 5) ''OK'' sample_state) = Inr ()
   \<and> lastAck_of sample_state ''G1'' ''S1'' = Num 0
   \<and> lastAck_of (snd (ack (Some ''k1'') 500 ''G1'' ''S1'' (Num 5) ''OK'' sample_state)) ''G1'' ''S1''
       = Num 5
   \<and> fst (ack (Some ''k1'') 500 ''G1'' ''S1'' (Num 3) ''OK''
            (snd (ack (Some ''k1'') 500 ''G1'' ''S1'' (Num 5) ''OK'' sample_state))) = Inr ()
   \<and> lastAck_of (snd (ack (Some ''k1'') 500 ''G1'' ''S1'' (Num 3) ''OK''
            (snd (ack (Some ''k1'') 500 ''G1'' ''S1'' (Num 5) ''OK'' sample_state)))) ''G1'' ''S1''
       = Num 5"
proof -
  let ?s1 = "snd (ack (Some ''k1'') 500 ''G1'' ''S1'' (Num 5) ''OK'' sample_state)"
  have ok: "fst (ack (Some ''k1'') 500 ''G1'' ''S1'' (Num 5) ''OK'' sample_state) = Inr ()"
    by (simp add: ack_def gate_sample sample_facts Let_def)
  have cl: "clients ?s1 = [sample_client]"
    by (simp add: ack_def gate_sample sample_facts Let_def)
  have ok2: "fst (ack (Some ''k1'') 500 ''G1'' ''S1'' (Num 3) ''OK'' ?s1) = Inr ()"
    by (simp add: ack_def [of _ _ _ _ "Num 3"] cl gate_sample sample_facts Let_def)
  have z: "lastAck_of sample_state ''G1'' ''S1'' = Num 0"
    by (simp add: lastAck_of_def slave_or_new_def sample_facts)
  from ack_monotone [OF ok] z ok2 show ?thesis
    by (auto simp: Let_def ok)
qed

section \<open>The tenant gate\<close>

lemma gate_fail_registerSlave:
  "g \<noteq> '''' \<Longrightarrow> i \<noteq> '''' \<Longrightarrow> requireClient (clients s) hdr g now = Inl e
     \<Longrightarrow> registerSlave hdr now g i s = (Inl e, s)"
  by (simp add: registerSlave_def)

lemma gate_fail_pollEvents:
  "g \<noteq> '''' \<Longrightarrow> i \<noteq> '''' \<Longrightarrow> requireClient (clients s) hdr g now = Inl e
     \<Longrightarrow> pollEvents hdr now g i since limit_q s = (Inl e, s)"
  by (simp add: pollEvents_def)

lemma gate_fail_ack:
  "g \<noteq> '''' \<Longrightarrow> i \<noteq> '''' \<Longrightarrow> \<not> falsy eid \<Longrightarrow> st \<noteq> ''''
     \<Longrightarrow> requireClient (clients s) hdr g now = Inl e
     \<Longrightarrow> ack hdr now g i eid st s = (Inl e, s)"
  by (simp add: ack_def)

text \<open>
  Claim C4. \<^verbatim>\<open>requireClient\<close> checks in this order. (1) A header that is absent (or
  blank once trimmed) gives Unauthorized. (2) A trimmed key that is the \<^verbatim>\<open>apiKey\<close> of no
  client gives Unauthorized. (3) When the key finds a client that is disabled or has
  \<^verbatim>\<open>expiresAt <= now\<close>, the result is Forbidden, whatever the group of the request.
  (4) When the client is active, a non-empty group of the request that differs from the
  client's \<^verbatim>\<open>groupId\<close> gives Forbidden. (5) Otherwise the client is returned. Register,
  poll and ack call the gate once the fields of the request are present, and each returns
  the failure of the gate and leaves the state as it was; so a client with
  \<^verbatim>\<open>expiresAt <= now\<close> and a correct key gets Forbidden from each of them.
\<close>

theorem requireClient_order:
  "(trim (or_empty hdr) = '''' \<longrightarrow>
      requireClient cs hdr g now = Inl (Unauthorized ''missing x-api-key''))
   \<and> (trim (or_empty hdr) \<noteq> '''' \<and> (\<forall>c\<in>set cs. apiKey c \<noteq> trim (or_empty hdr)) \<longrightarrow>
      requireClient cs hdr g now = Inl (Unauthorized ''invalid api key''))
   \<and> (\<forall>c. trim (or_empty hdr) \<noteq> '''' \<and> findClientByApiKey cs (trim (or_empty hdr)) = Some c \<longrightarrow>
        ((\<not> enabled c \<or> expiresAt c \<le> now) \<longrightarrow>
            requireClient cs hdr g now = Inl (Forbidden ''expired/disabled''))
      \<and> (enabled c \<and> now < expiresAt c \<and> g \<noteq> '''' \<and> groupId c \<noteq> g \<longrightarrow>
            requireClient cs hdr g now = Inl (Forbidden ''group mismatch''))
      \<and> (enabled c \<and> now < expiresAt c \<and> (g = '''' \<or> groupId c = g) \<longrightarrow>
            requireClient cs hdr g now = Inr c))
   \<and> (\<forall>e. g \<noteq> '''' \<and> i \<noteq> '''' \<and> requireClient (clients s) hdr g now = Inl e \<longrightarrow>
        registerSlave hdr now g i s = (Inl e, s)
      \<and> pollEvents hdr now g i since limit_q s = (Inl e, s)
      \<and> (\<not> falsy eid \<and> st \<noteq> '''' \<longrightarrow> ack hdr now g i eid st s = (Inl e, s)))"
proof -
  have a: "trim (or_empty hdr) = '''' \<longrightarrow>
      requireClient cs hdr g now = Inl (Unauthorized ''missing x-api-key'')"
    by (simp add: requireClient_def)
  have b: "trim (or_empty hdr) \<noteq> '''' \<and> (\<forall>c\<in>set cs. apiKey c \<noteq> trim (or_empty hdr)) \<longrightarrow>
      requireClient cs hdr g now = Inl (Unauthorized ''invalid api key'')"
    by (simp add: requireClient_def findClientByApiKey_def find_None_iff_set [THEN iffD2])
  have c: "\<forall>c. trim (or_empty hdr) \<noteq> '''' \<and> findClientByApiKey cs (trim (or_empty hdr)) = Some c \<longrightarrow>
        ((\<not> enabled c \<or> expiresAt c \<le> now) \<longrightarrow>
            requireClient cs hdr g now = Inl (Forbidden ''expired/disabled''))
      \<and> (enabled c \<and> now < expiresAt c \<and> g \<noteq> '''' \<and> groupId c \<noteq> g \<longrightarrow>
            requireClient cs hdr g now = Inl (Forbidden ''group mismatch''))
      \<and> (enabled c \<and> now < expiresAt c \<and> (g = '''' \<or> groupId c = g) \<longrightarrow>
            requireClient cs hdr g now = Inr c)"
    by (auto simp: requireClient_def)
  have d: "\<forall>e. g \<noteq> '''' \<and> i \<noteq> '''' \<and> requireClient (clients s) hdr g now = Inl e \<longrightarrow>
        registerSlave hdr now g i s = (Inl e, s)
      \<and> pollEvents hdr now g i since limit_q s = (Inl e, s)
      \<and> (\<not> falsy eid \<and> st \<noteq> '''' \<longrightarrow> ack hdr now g i eid st s = (Inl e, s))"
    by (simp add: gate_fail_registerSlave gate_fail_pollEvents gate_fail_ack)
  show ?thesis using a b c d by blast
qed

theorem requireClient_order_witness:
  "requireClient [sample_client] None ''G1'' 500 = Inl (Unauthorized ''missing x-api-key'')
   \<and> requireClient [sample_client] (Some ''nope'') ''G1'' 500 = Inl (Unauthorized ''invalid api key'')
   \<and> requireClient [sample_client] (Some ''k1'') ''G2'' 2000 = Inl (Forbidden ''expired/disabled'')
   \<and> requireClient [sample_client] (Some ''k1'') ''G2'' 500 = Inl (Forbidden ''group mismatch'')
   \<and> requireClient [sample_client] (Some '' k1 '') ''G1'' 500 = Inr sample_client
   \<and> registerSlave (Some ''k1'') 2000 ''G1'' ''S1'' sample_state
       = (Inl (Forbidden ''expired/disabled''), sample_state)
   \<and> pollEvents (Some ''k1'') 2000 ''G1'' ''S1'' (Num 0) (Num 10) sample_state
       = (Inl (Forbidden ''expired/disabled''), sample_state)
   \<and> ack (Some ''k1'') 2000 ''G1'' ''S1'' (Num 1) ''OK'' sample_state
       = (Inl (Forbidden ''expired/disabled''), sample_state)"
  using requireClient_order [where hdr = None and cs = "[sample_client]" and g = "''G1''"
          and now = 500 and i = "''S1''" and s = sample_state]
        requireClient_order [where hdr = "Some ''nope''" and cs = "[sample_client]" and g = "''G1''"
          and now = 500 and i = "''S1''" and s = sample_state]
        requireClient_order [where hdr = "Some ''k1''" and cs = "[sample_client]" and g = "''G2''"
          and now = 2000 and i = "''S1''" and s = sample_state]
        requireClient_order [where hdr = "Some ''k1''" and cs = "[sample_client]" and g = "''G2''"
          and now = 500 and i = "''S1''" and s = sample_state]
        requireClient_order [where hdr = "Some '' k1 ''" and cs = "[sample_client]" and g = "''G1''"
          and now = 500 and i = "''S1''" and s = sample_state]
        requireClient_order [where hdr = "Some ''k1''" and cs = "[sample_client]" and g = "''G1''"
          and now = 2000 and i = "''S1''" and s = sample_state and since = "Num 0"
          and limit_q = "Num 10" and eid = "Num 1" and st = "''OK''"]
  by (simp add: trim_samples findClientByApiKey_def requireClient_def sample_state_def
        sample_client_def)

section \<open>The log along a run\<close>

lemma step_events:
  "events (copier (step cfg t r s)) = events (copier s)
   \<or> (\<exists>h b n. r = Push h b \<and> fst (push cfg h t b s) = Inr n
        \<and> events (copier (step cfg t r s)) = slice_last 50000 (events (copier s) @ [new_event n t b]))"
proof (cases r)
  case (Push h b)
  then show ?thesis by (auto simp: push_events push_Inr_iff)
qed (simp_all add: registerSlave_copier pollEvents_copier ack_copier admin_copier)

lemma step_nextId_mono: "nextId (copier s) \<le> nextId (copier (step cfg t r s))"
  by (cases r) (simp_all add: push_nextId registerSlave_copier pollEvents_copier ack_copier admin_copier)

lemma run_nextId_mono: "nextId (copier s) \<le> nextId (copier (run cfg rs s))"
proof (induction rs arbitrary: s)
  case Nil
  show ?case by simp
next
  case (Cons a rs)
  obtain t r where a: "a = (t, r)" by (cases a)
  have "nextId (copier s) \<le> nextId (copier (step cfg t r s))" by (rule step_nextId_mono)
  also have "\<dots> \<le> nextId (copier (run cfg rs (step cfg t r s)))" by (rule Cons.IH)
  finally show ?case by (simp add: a)
qed

lemma log_wf_init: "log_wf init_state"
  by (simp add: log_wf_def init_state_def)

lemma log_wf_snoc:
  assumes "log_wf s"
  shows "sorted_wrt (<) (map id_e (events (copier s) @ [new_event (nextId (copier s)) t b]))"
    and "list_all (\<lambda>e. id_e e < nextId (copier s) + 1) (events (copier s) @ [new_event (nextId (copier s)) t b])"
  using assms by (auto simp: log_wf_def sorted_wrt_append list_all_iff new_event_def)

lemma log_wf_step: "log_wf s \<Longrightarrow> log_wf (step cfg t r s)"
proof (cases r)
  case (Push h b)
  assume wf: "log_wf s"
  show ?thesis
  proof (cases "masterOk cfg h \<and> valid_body b")
    case True
    then have n: "nextId (copier (step cfg t r s)) = nextId (copier s) + 1"
      by (simp add: Push push_nextId valid_body_def)
    have e: "events (copier (step cfg t r s))
              = drop (length (events (copier s) @ [new_event (nextId (copier s)) t b]) - 50000)
                  (events (copier s) @ [new_event (nextId (copier s)) t b])"
      using True by (simp add: Push push_events slice_last_def)
    show ?thesis
      unfolding log_wf_def n e
      using log_wf_snoc [OF wf, of t b]
      by (simp only: drop_map [symmetric] sorted_wrt_drop list_all_drop simp_thms)
  next
    case False
    then have e: "events (copier (step cfg t r s)) = events (copier s)"
      by (auto simp: Push push_events)
    have "nextId (copier s) \<le> nextId (copier (step cfg t r s))" by (rule step_nextId_mono)
    then show ?thesis using wf by (auto simp: log_wf_def e list_all_iff)
  qed
qed (simp_all add: log_wf_def registerSlave_copier pollEvents_copier ack_copier admin_copier)

lemma log_wf_run: "log_wf s \<Longrightarrow> log_wf (run cfg rs s)"
proof (induction rs arbitrary: s)
  case Nil
  then show ?case by simp
next
  case (Cons a rs)
  obtain t r where a: "a = (t, r)" by (cases a)
  show ?case using Cons.IH [OF log_wf_step [OF Cons.prems]] by (simp add: a)
qed

lemma assigned_ids_Cons:
  "assigned_ids cfg ((t, r) # rs) s =
     (case r of Push h b \<Rightarrow> (case fst (push cfg h t b s) of Inl e \<Rightarrow> [] | Inr n \<Rightarrow> [n]) | _ \<Rightarrow> [])
       @ assigned_ids cfg rs (step cfg t r s)"
  by (cases r) simp_all

lemma assigned_ids_head:
  "(case r of Push h b \<Rightarrow> (case fst (push cfg h t b s) of Inl e \<Rightarrow> [] | Inr n \<Rightarrow> [n]) | _ \<Rightarrow> []) = xs
   \<Longrightarrow> xs = [] \<or> (xs = [nextId (copier s)] \<and> nextId (copier (step cfg t r s)) = nextId (copier s) + 1)"
  by (cases r) (auto simp: push_Inr_iff push_nextId valid_body_def split: sum.splits)

lemma assigned_ids_bounds:
  "list_all (\<lambda>n. nextId (copier s) \<le> n \<and> n < nextId (copier (run cfg rs s))) (assigned_ids cfg rs s)"
proof (induction rs arbitrary: s)
  case Nil
  show ?case by simp
next
  case (Cons a rs)
  obtain t r where a: "a = (t, r)" by (cases a)
  let ?s' = "step cfg t r s"
  let ?hd = "case r of Push h b \<Rightarrow> (case fst (push cfg h t b s) of Inl e \<Rightarrow> [] | Inr n \<Rightarrow> [n]) | _ \<Rightarrow> []"
  have m: "nextId (copier s) \<le> nextId (copier ?s')" by (rule step_nextId_mono)
  have m2: "nextId (copier ?s') \<le> nextId (copier (run cfg rs ?s'))" by (rule run_nextId_mono)
  have tl: "list_all (\<lambda>n. nextId (copier s) \<le> n \<and> n < nextId (copier (run cfg rs ?s')))
              (assigned_ids cfg rs ?s')"
    using Cons.IH [of ?s'] m by (auto simp: list_all_iff)
  have hd: "list_all (\<lambda>n. nextId (copier s) \<le> n \<and> n < nextId (copier (run cfg rs ?s'))) ?hd"
    using assigned_ids_head [OF refl, where r = r and cfg = cfg and t = t and s = s] m2 by auto
  show ?case using hd tl by (simp add: a assigned_ids_Cons del: assigned_ids.simps)
qed

lemma assigned_ids_sorted: "sorted_wrt (<) (assigned_ids cfg rs s)"
proof (induction rs arbitrary: s)
  case Nil
  show ?case by simp
next
  case (Cons a rs)
  obtain t r where a: "a = (t, r)" by (cases a)
  let ?s' = "step cfg t r s"
  define xs where "xs = (case r of Push h b \<Rightarrow> (case fst (push cfg h t b s) of Inl e \<Rightarrow> [] | Inr n \<Rightarrow> [n]) | _ \<Rightarrow> [])"
  have b: "\<forall>n\<in>set (assigned_ids cfg rs ?s'). nextId (copier ?s') \<le> n"
    using assigned_ids_bounds [of ?s' cfg rs] by (auto simp: list_all_iff)
  have hd: "xs = [] \<or> (xs = [nextId (copier s)] \<and> nextId (copier ?s') = nextId (copier s) + 1)"
    using assigned_ids_head [OF xs_def [symmetric]] .
  have "sorted_wrt (<) (xs @ assigned_ids cfg rs ?s')"
    using hd Cons.IH [of ?s'] b by (auto simp: sorted_wrt_append)
  then show ?case by (simp add: a assigned_ids_Cons xs_def del: assigned_ids.simps)
qed

text \<open>
  Claim C5. Along every run (pushes of any group, mixed with any other requests) the
  identifiers that successful pushes return ascend strictly in the order of the pushes,
  so they are pairwise distinct; each is the value of the one counter \<^verbatim>\<open>nextId\<close> at its
  push, which the push increments by one, and the event stored last carries it. The
  identifiers stored in the log ascend strictly along the log (insertion order) in every
  state that a run reaches from a log with that property, such as the initial one.
\<close>

theorem push_ids_strictly_increasing:
  "sorted_wrt (<) (assigned_ids cfg rs s)
   \<and> distinct (assigned_ids cfg rs s)
   \<and> list_all (\<lambda>n. nextId (copier s) \<le> n \<and> n < nextId (copier (run cfg rs s)))
        (assigned_ids cfg rs s)
   \<and> (\<forall>h t b n. fst (push cfg h t b s) = Inr n \<longrightarrow>
         n = nextId (copier s)
       \<and> nextId (copier (snd (push cfg h t b s))) = n + 1
       \<and> last (events (copier (snd (push cfg h t b s)))) = new_event n t b)
   \<and> log_wf init_state
   \<and> (log_wf s \<longrightarrow>
         log_wf (run cfg rs s)
       \<and> sorted_wrt (<) (map id_e (events (copier (run cfg rs s))))
       \<and> distinct (map id_e (events (copier (run cfg rs s)))))"
proof -
  have a: "sorted_wrt (<) (assigned_ids cfg rs s)" by (rule assigned_ids_sorted)
  then have b: "distinct (assigned_ids cfg rs s)" by (simp add: strict_sorted_iff)
  have c: "\<forall>h t b n. fst (push cfg h t b s) = Inr n \<longrightarrow>
         n = nextId (copier s)
       \<and> nextId (copier (snd (push cfg h t b s))) = n + 1
       \<and> last (events (copier (snd (push cfg h t b s)))) = new_event n t b"
    by (auto simp: push_last_event push_Inr_iff push_nextId valid_body_def)
  have d: "log_wf s \<longrightarrow>
         log_wf (run cfg rs s)
       \<and> sorted_wrt (<) (map id_e (events (copier (run cfg rs s))))
       \<and> distinct (map id_e (events (copier (run cfg rs s))))"
  proof
    assume "log_wf s"
    then have w: "log_wf (run cfg rs s)" by (rule log_wf_run)
    then have "sorted_wrt (<) (map id_e (events (copier (run cfg rs s))))"
      by (simp add: log_wf_def)
    with w show "log_wf (run cfg rs s)
       \<and> sorted_wrt (<) (map id_e (events (copier (run cfg rs s))))
       \<and> distinct (map id_e (events (copier (run cfg rs s))))"
      by (simp add: strict_sorted_iff)
  qed
  show ?thesis using a b c d assigned_ids_bounds log_wf_init by blast
qed

theorem push_ids_strictly_increasing_witness:
  "assigned_ids sample_cfg
     [(1, Push (Some ''mk'') sample_body),
      (2, Push (Some ''mk'') (sample_body\<lparr>b_group := ''G2''\<rparr>)),
      (3, Push None sample_body),
      (4, Push (Some ''mk'') sample_body)] init_state = [1, 2, 3]
   \<and> log_wf init_state
   \<and> map id_e (events (copier (run sample_cfg
       [(1, Push (Some ''mk'') sample_body),
        (2, Push (Some ''mk'') (sample_body\<lparr>b_group := ''G2''\<rparr>)),
        (3, Push None sample_body),
        (4, Push (Some ''mk'') sample_body)] init_state))) = [1, 2, 3]
   \<and> map group_e (events (copier (run sample_cfg
       [(1, Push (Some ''mk'') sample_body),
        (2, Push (Some ''mk'') (sample_body\<lparr>b_group := ''G2''\<rparr>)),
        (3, Push None sample_body),
        (4, Push (Some ''mk'') sample_body)] init_state))) = [''G1'', ''G2'', ''G1'']
   \<and> fst (push sample_cfg (Some ''mk'') 1 sample_body init_state) = Inr 1"
proof -
  have v: "valid_body (sample_body\<lparr>b_group := ''G2''\<rparr>)"
    by (simp add: valid_body_def sample_body_def)
  have p3: "\<And>s. push sample_cfg None 3 sample_body s = (Inl (Unauthorized ''unauthorized master''), s)"
    by (simp add: push_def sample_cfg_facts)
  show ?thesis
    using push_ids_strictly_increasing [of sample_cfg
       "[(1, Push (Some ''mk'') sample_body),
         (2, Push (Some ''mk'') (sample_body\<lparr>b_group := ''G2''\<rparr>)),
         (3, Push None sample_body),
         (4, Push (Some ''mk'') sample_body)]" init_state]
    by (simp add: push_sample_eval sample_cfg_facts sample_body_facts v p3 init_state_def
          new_event_def)
qed

section \<open>Extending a client\<close>



section \<open>Retention\<close>

text \<open>
  Claim C7. After a successful push the log is the old log with the new event appended,
  cut to its last 50000 elements: it holds at most 50000 events, all of them when the
  appended log has at most 50000, exactly 50000 otherwise; the events cut are the
  oldest ones (a prefix of the appended log), and in a log whose identifiers ascend each
  of them has a smaller identifier than every event kept. No request changes the list of
  events in any other way: after every request it is the list before, or (for a
  successful push) that cut of the appended list.
\<close>

theorem push_retention:
  "(\<forall>n. fst (push cfg h now b s) = Inr n \<longrightarrow>
      (let evs = events (copier s) @ [new_event n now b];
           evs' = events (copier (snd (push cfg h now b s)))
       in length evs' \<le> 50000
        \<and> evs' = drop (length evs - 50000) evs
        \<and> (length evs \<le> 50000 \<longrightarrow> evs' = evs)
        \<and> (50000 < length evs \<longrightarrow> length evs' = 50000)
        \<and> (log_wf s \<longrightarrow>
             (\<forall>d\<in>set (take (length evs - 50000) evs). \<forall>k\<in>set evs'. id_e d < id_e k))))
   \<and> (\<forall>r t. events (copier (step cfg t r s)) = events (copier s)
        \<or> (\<exists>h' b' n. r = Push h' b' \<and> fst (push cfg h' t b' s) = Inr n
             \<and> events (copier (step cfg t r s))
                 = slice_last 50000 (events (copier s) @ [new_event n t b'])))"
proof -
  have first: "\<forall>n. fst (push cfg h now b s) = Inr n \<longrightarrow>
      (let evs = events (copier s) @ [new_event n now b];
           evs' = events (copier (snd (push cfg h now b s)))
       in length evs' \<le> 50000
        \<and> evs' = drop (length evs - 50000) evs
        \<and> (length evs \<le> 50000 \<longrightarrow> evs' = evs)
        \<and> (50000 < length evs \<longrightarrow> length evs' = 50000)
        \<and> (log_wf s \<longrightarrow>
             (\<forall>d\<in>set (take (length evs - 50000) evs). \<forall>k\<in>set evs'. id_e d < id_e k)))"
  proof (intro allI impI)
    fix n assume ok: "fst (push cfg h now b s) = Inr n"
    then have v: "masterOk cfg h \<and> valid_body b" and n: "n = nextId (copier s)"
      by (simp_all add: push_Inr_iff)
    define evs where "evs = events (copier s) @ [new_event n now b]"
    define evs' where "evs' = events (copier (snd (push cfg h now b s)))"
    have e: "evs' = drop (length evs - 50000) evs"
      using v by (simp add: evs'_def evs_def push_events slice_last_def n)
    have l: "length evs' \<le> 50000" "length evs \<le> 50000 \<longrightarrow> evs' = evs"
      "50000 < length evs \<longrightarrow> length evs' = 50000"
      by (auto simp: e)
    have o: "log_wf s \<longrightarrow>
             (\<forall>d\<in>set (take (length evs - 50000) evs). \<forall>k\<in>set evs'. id_e d < id_e k)"
    proof
      assume wf: "log_wf s"
      have "sorted_wrt (<) (map id_e evs)"
        using log_wf_snoc(1) [OF wf, of now b] by (simp add: evs_def n)
      then have "sorted_wrt (\<lambda>x y. id_e x < id_e y)
                   (take (length evs - 50000) evs @ drop (length evs - 50000) evs)"
        by (simp add: sorted_wrt_map)
      then show "\<forall>d\<in>set (take (length evs - 50000) evs). \<forall>k\<in>set evs'. id_e d < id_e k"
        unfolding sorted_wrt_append e by blast
    qed
    show "let evs = events (copier s) @ [new_event n now b];
           evs' = events (copier (snd (push cfg h now b s)))
       in length evs' \<le> 50000
        \<and> evs' = drop (length evs - 50000) evs
        \<and> (length evs \<le> 50000 \<longrightarrow> evs' = evs)
        \<and> (50000 < length evs \<longrightarrow> length evs' = 50000)
        \<and> (log_wf s \<longrightarrow>
             (\<forall>d\<in>set (take (length evs - 50000) evs). \<forall>k\<in>set evs'. id_e d < id_e k))"
      unfolding Let_def evs_def [symmetric] evs'_def [symmetric]
      using e l o by blast
  qed
  show ?thesis using first step_events by blast
qed

theorem push_retention_witness:
  "fst (push sample_cfg (Some ''mk'') 9 sample_body (flood_state 50000)) = Inr 50001
   \<and> log_wf (flood_state 50000)
   \<and> length (events (copier (flood_state 50000))) = 50000
   \<and> events (copier (snd (push sample_cfg (Some ''mk'') 9 sample_body (flood_state 50000))))
       = drop 1 (events (copier (flood_state 50000)) @ [new_event 50001 9 sample_body])
   \<and> length (events (copier (snd (push sample_cfg (Some ''mk'') 9 sample_body (flood_state 50000)))))
       = 50000
   \<and> fst (push sample_cfg (Some ''mk'') 9 sample_body init_state) = Inr 1
   \<and> events (copier (snd (push sample_cfg (Some ''mk'') 9 sample_body init_state)))
       = [new_event 1 9 sample_body]
   \<and> events (copier (step sample_cfg 9 (AdminList None) (flood_state 50000)))
       = events (copier (flood_state 50000))"
proof -
  have ok: "fst (push sample_cfg (Some ''mk'') 9 sample_body (flood_state 50000)) = Inr 50001"
    by (simp add: push_Inr_iff sample_cfg_facts sample_body_facts flood_nextId)
  have ok1: "fst (push sample_cfg (Some ''mk'') 9 sample_body init_state) = Inr 1"
    by (simp add: push_Inr_iff sample_cfg_facts sample_body_facts init_state_def)
  note big = push_retention [of sample_cfg "Some ''mk''" 9 sample_body "flood_state 50000"]
  note small = push_retention [of sample_cfg "Some ''mk''" 9 sample_body init_state]
  have a: "events (copier (snd (push sample_cfg (Some ''mk'') 9 sample_body (flood_state 50000))))
       = drop 1 (events (copier (flood_state 50000)) @ [new_event 50001 9 sample_body])
     \<and> length (events (copier (snd (push sample_cfg (Some ''mk'') 9 sample_body (flood_state 50000)))))
       = 50000"
    using big [THEN conjunct1, rule_format, OF ok] by (simp add: Let_def flood_len flood_wf)
  have b: "events (copier (snd (push sample_cfg (Some ''mk'') 9 sample_body init_state)))
       = [new_event 1 9 sample_body]"
    using small [THEN conjunct1, rule_format, OF ok1] by (simp add: Let_def init_state_def)
  have c: "events (copier (step sample_cfg 9 (AdminList None) (flood_state 50000)))
       = events (copier (flood_state 50000))"
    using big [THEN conjunct2, rule_format, of 9 "AdminList None"] by simp
  show ?thesis using ok ok1 a b c flood_wf flood_len by simp
qed

section \<open>Acknowledgements and clients\<close>

text \<open>
  Claim C8. \<^verbatim>\<open>ack\<close> never assigns to a client: the list of clients after an \<^verbatim>\<open>ack\<close> is
  the list before it, whatever the reply. For a request that reaches the gate and
  passes it, an unbound client gets a successful \<^verbatim>\<open>ack\<close> and stays unbound (the same
  client record is found under the same key), and a client bound to another \<^verbatim>\<open>slaveId\<close>
  gets Forbidden with the state unchanged.
\<close>

theorem ack_keeps_clients:
  "clients (snd (ack hdr now g i e st s)) = clients s
   \<and> (\<forall>c. g \<noteq> '''' \<and> i \<noteq> '''' \<and> \<not> falsy e \<and> st \<noteq> ''''
          \<and> requireClient (clients s) hdr g now = Inr c \<longrightarrow>
        (boundSlaveId c = '''' \<longrightarrow>
           fst (ack hdr now g i e st s) = Inr ()
         \<and> findClientByApiKey (clients (snd (ack hdr now g i e st s))) (trim (or_empty hdr)) = Some c)
      \<and> (boundSlaveId c \<noteq> '''' \<and> boundSlaveId c \<noteq> i \<longrightarrow>
           ack hdr now g i e st s = (Inl (Forbidden ''boundSlaveId mismatch''), s)))"
proof -
  have "\<forall>c. g \<noteq> '''' \<and> i \<noteq> '''' \<and> \<not> falsy e \<and> st \<noteq> ''''
          \<and> requireClient (clients s) hdr g now = Inr c \<longrightarrow>
        (boundSlaveId c = '''' \<longrightarrow>
           fst (ack hdr now g i e st s) = Inr ()
         \<and> findClientByApiKey (clients s) (trim (or_empty hdr)) = Some c)
      \<and> (boundSlaveId c \<noteq> '''' \<and> boundSlaveId c \<noteq> i \<longrightarrow>
           ack hdr now g i e st s = (Inl (Forbidden ''boundSlaveId mismatch''), s))"
    by (auto simp: ack_def Let_def dest: requireClient_Inr_find)
  then show ?thesis by (simp add: ack_clients)
qed

theorem ack_keeps_clients_witness:
  "fst (ack (Some ''k1'') 500 ''G1'' ''S1'' (Num 1) ''OK'' sample_state) = Inr ()
   \<and> clients (snd (ack (Some ''k1'') 500 ''G1'' ''S1'' (Num 1) ''OK'' sample_state)) = [sample_client]
   \<and> boundSlaveId sample_client = ''''
   \<and> ack (Some ''k1'') 500 ''G1'' ''S2'' (Num 1) ''OK'' bound_state
       = (Inl (Forbidden ''boundSlaveId mismatch''), bound_state)"
  using ack_keeps_clients [where hdr = "Some ''k1''" and now = 500 and g = "''G1''" and i = "''S1''"
          and e = "Num 1" and st = "''OK''" and s = sample_state]
        ack_keeps_clients [where hdr = "Some ''k1''" and now = 500 and g = "''G1''" and i = "''S2''"
          and e = "Num 1" and st = "''OK''" and s = bound_state]
  by (simp add: sample_facts bound_facts gate_sample gate_bound)

section \<open>The admin gate of the two variants\<close>

lemma trim_padded_key: "trim '' ak '' = ''ak''" "trim ''ak'' = ''ak''" "trim '''' = ''''"
  by (simp_all add: trim_def is_ws_def)

text \<open>
  The two variants, started with the same environment, do not agree for every non-empty
  \<^verbatim>\<open>ADMIN_KEY\<close>: with the value \<^verbatim>\<open>" ak "\<close> and the header \<^verbatim>\<open>ak\<close>, \<^verbatim>\<open>server.js\<close> compares
  the header with the padded value and rejects, and the second variant compares it with
  the trimmed value and accepts.
\<close>

theorem adminOk_padded_key_counterexample:
  "or_empty (Some '' ak '') \<noteq> ''''
   \<and> \<not> adminOk (load_config (Some ''mk'') (Some '' ak '')) (Some ''ak'')
   \<and> adminOk_part000 (Some '' ak '') (Some ''ak'')"
  by (simp add: adminOk_def adminOk_part000_def ADMIN_KEY_part000_def load_config_def
        or_empty_def trim_padded_key)

text \<open>
  Claim C9, as it holds. Let both variants read the same \<^verbatim>\<open>process.env.ADMIN_KEY\<close>. When
  its value is non-empty and has no white space at either end (trimming leaves it as it
  is), \<^verbatim>\<open>adminOk\<close> of \<^verbatim>\<open>server.js\<close> and \<^verbatim>\<open>adminOk\<close> of the second variant agree on every
  request, and each accepts exactly the requests whose \<^verbatim>\<open>x-admin-key\<close> header is present
  and equal to that value. When the variable is absent or empty they disagree on every
  request: \<^verbatim>\<open>server.js\<close> accepts it and the second variant rejects it.
\<close>

theorem adminOk_variants:
  "(or_empty env \<noteq> '''' \<and> trim (or_empty env) = or_empty env \<longrightarrow>
      adminOk (load_config env_m env) hdr = adminOk_part000 env hdr
      \<and> (adminOk (load_config env_m env) hdr \<longleftrightarrow> hdr = Some (or_empty env))
      \<and> (adminOk_part000 env hdr \<longleftrightarrow> hdr = Some (or_empty env)))
   \<and> (or_empty env = '''' \<longrightarrow>
      adminOk (load_config env_m env) hdr \<and> \<not> adminOk_part000 env hdr)"
proof -
  have a: "or_empty env \<noteq> '''' \<and> trim (or_empty env) = or_empty env \<longrightarrow>
      adminOk (load_config env_m env) hdr = adminOk_part000 env hdr
      \<and> (adminOk (load_config env_m env) hdr \<longleftrightarrow> hdr = Some (or_empty env))
      \<and> (adminOk_part000 env hdr \<longleftrightarrow> hdr = Some (or_empty env))"
    by (cases hdr)
       (auto simp: adminOk_def adminOk_part000_def ADMIN_KEY_part000_def load_config_def
          or_empty_def)
  have b: "or_empty env = '''' \<longrightarrow>
      adminOk (load_config env_m env) hdr \<and> \<not> adminOk_part000 env hdr"
    by (simp add: adminOk_def adminOk_part000_def ADMIN_KEY_part000_def load_config_def
          trim_padded_key)
  show ?thesis using a b by blast
qed

theorem adminOk_variants_witness:
  "adminOk (load_config (Some ''mk'') (Some ''ak'')) (Some ''ak'')
   \<and> adminOk_part000 (Some ''ak'') (Some ''ak'')
   \<and> \<not> adminOk (load_config (Some ''mk'') (Some ''ak'')) None
   \<and> \<not> adminOk_part000 (Some ''ak'') None
   \<and> \<not> adminOk (load_config (Some ''mk'') (Some ''ak'')) (Some ''x'')
   \<and> \<not> adminOk_part000 (Some ''ak'') (Some ''x'')
   \<and> adminOk (load_config (Some ''mk'') None) (Some ''ak'')
   \<and> \<not> adminOk_part000 None (Some ''ak'')
   \<and> adminOk (load_config (Some ''mk'') (Some '''')) None
   \<and> \<not> adminOk_part000 (Some '''') None"
  using adminOk_variants [of "Some ''ak''" "Some ''mk''" "Some ''ak''"]
        adminOk_variants [of "Some ''ak''" "Some ''mk''" None]
        adminOk_variants [of "Some ''ak''" "Some ''mk''" "Some ''x''"]
        adminOk_variants [of None "Some ''mk''" "Some ''ak''"]
        adminOk_variants [of "Some ''''" "Some ''mk''" None]
  by (simp add: or_empty_def trim_padded_key)

section \<open>A rejected push and the counter\<close>

text \<open>
  Claim C10. A push by the master that passes the check of group and type and is then
  rejected for a missing \<^verbatim>\<open>master_ticket\<close> or \<^verbatim>\<open>symbol\<close> returns InvalidInput with the
  counter \<^verbatim>\<open>nextId\<close> already incremented and the list of events unchanged. Hence the
  identifiers of the appended events can have gaps: a valid push, the rejected push and
  another valid push return \<open>n\<close> and \<open>n + 2\<close>.
\<close>

theorem push_rejection_bumps_counter:
  assumes "masterOk cfg h" and "b_group b \<noteq> ''''" and "b_type b = ''OPEN'' \<or> b_type b = ''CLOSE''"
    and "falsy (b_master_ticket b) \<or> b_symbol b = ''''"
  shows "push cfg h now b s =
           (Inl (InvalidInput ''missing master_ticket/symbol''),
            s\<lparr>copier := (copier s)\<lparr>nextId := nextId (copier s) + 1\<rparr>\<rparr>)
       \<and> nextId (copier (snd (push cfg h now b s))) = nextId (copier s) + 1
       \<and> events (copier (snd (push cfg h now b s))) = events (copier s)
       \<and> (\<forall>b1 b3 t1 t3. valid_body b1 \<and> valid_body b3 \<longrightarrow>
            assigned_ids cfg [(t1, Push h b1), (now, Push h b), (t3, Push h b3)] s
              = [nextId (copier s), nextId (copier s) + 2])"
proof -
  have a: "push cfg h now b s =
           (Inl (InvalidInput ''missing master_ticket/symbol''),
            s\<lparr>copier := (copier s)\<lparr>nextId := nextId (copier s) + 1\<rparr>\<rparr>)"
    using assms by (auto simp: push_def Let_def new_event_def)
  have nb: "\<not> valid_body b" using assms(4) by (auto simp: valid_body_def)
  have rej: "\<And>s'. fst (push cfg h now b s') = Inl (InvalidInput ''missing master_ticket/symbol'')"
    using assms by (auto simp: push_fst)
  have gap: "\<forall>b1 b3 t1 t3. valid_body b1 \<and> valid_body b3 \<longrightarrow>
            assigned_ids cfg [(t1, Push h b1), (now, Push h b), (t3, Push h b3)] s
              = [nextId (copier s), nextId (copier s) + 2]"
  proof (intro allI impI)
    fix b1 b3 t1 t3 assume v: "valid_body b1 \<and> valid_body b3"
    have 1: "fst (push cfg h t1 b1 s) = Inr (nextId (copier s))"
      using v assms(1) by (simp add: push_Inr_iff)
    have n1: "nextId (copier (snd (push cfg h t1 b1 s))) = nextId (copier s) + 1"
      using v assms(1) by (simp add: push_nextId valid_body_def)
    have n2: "nextId (copier (snd (push cfg h now b (snd (push cfg h t1 b1 s)))))
               = nextId (copier s) + 2"
      using assms n1 by (simp add: push_nextId)
    have 3: "fst (push cfg h t3 b3 (snd (push cfg h now b (snd (push cfg h t1 b1 s)))))
               = Inr (nextId (copier s) + 2)"
      using v assms(1) n2 by (simp add: push_Inr_iff)
    show "assigned_ids cfg [(t1, Push h b1), (now, Push h b), (t3, Push h b3)] s
              = [nextId (copier s), nextId (copier s) + 2]"
      by (simp add: 1 rej 3)
  qed
  show ?thesis using a gap by simp
qed

theorem push_rejection_bumps_counter_witness:
  "masterOk sample_cfg (Some ''mk'')
   \<and> push sample_cfg (Some ''mk'') 7 (sample_body\<lparr>b_symbol := ''''\<rparr>) init_state
       = (Inl (InvalidInput ''missing master_ticket/symbol''),
          init_state\<lparr>copier := \<lparr>nextId = 2, events = []\<rparr>\<rparr>)
   \<and> assigned_ids sample_cfg
        [(6, Push (Some ''mk'') sample_body),
         (7, Push (Some ''mk'') (sample_body\<lparr>b_symbol := ''''\<rparr>)),
         (8, Push (Some ''mk'') sample_body)] init_state = [1, 3]"
  using push_rejection_bumps_counter [where cfg = sample_cfg and h = "Some ''mk''"
          and b = "sample_body\<lparr>b_symbol := ''''\<rparr>" and now = 7 and s = init_state]
  by (auto simp: sample_cfg_facts sample_body_facts init_state_def)

end
